theory Spec2Isabelle
  imports Complex_Main "HOL-Library.List_Lexorder" "HOL-Library.Char_ord" "HOL-Library.Sublist"
begin

section \<open>Batch diarization reconciler (batch-diarization.service.ts)\<close>

text \<open>
  JavaScript numbers that carry times and confidences are modelled as \<^typ>\<open>real\<close>:
  the claims are about which value is selected, compared or copied, not about rounding.
  Speaker tags are integers. The generated columns of a persisted segment (\<open>id\<close>,
  \<open>createdAt\<close>, \<open>updatedAt\<close>) are not part of the model.
\<close>

record TranscriptSegment =
  meetingId :: string
  speakerTag :: int
  speakerName :: "string option"
  transcript :: string
  confidence :: real
  startTime :: real
  endTime :: real
  isFinal :: bool

record PyannoteSegment =
  speaker :: string
  pstart :: real
  pend :: real

text \<open>The element type of \<open>mergedSegments\<close> in \<open>assignSpeakersAndMergeSegments\<close>.\<close>

record MergedSegment =
  m_speakerTag :: int
  m_transcript :: string
  m_startTime :: real
  m_endTime :: real
  m_confidence :: real

text \<open>\<open>interface DiarizedSegment\<close>; its confidence is optional.\<close>

record DiarizedSegment =
  d_speakerTag :: int
  d_speaker :: string
  d_transcript :: string
  d_startTime :: real
  d_endTime :: real
  d_confidence :: "real option"

subsection \<open>Speaker mapping and midpoint assignment\<close>

text \<open>
  \<open>[...new Set(xs)]\<close> keeps the first occurrence of every element, in insertion order.
\<close>

fun uniq :: "'a list \<Rightarrow> 'a list" where
  "uniq [] = []"
| "uniq (x # xs) = x # filter (\<lambda>y. y \<noteq> x) (uniq xs)"

text \<open>
  \<open>[...new Set(pyannoteSpeakers.map(s => s.speaker))].sort()\<close>: the default sort compares
  strings code unit by code unit, which is the lexicographic order on character lists.
\<close>

definition uniqueSpeakers :: "PyannoteSegment list \<Rightarrow> string list" where
  "uniqueSpeakers pyannoteSpeakers = sort (uniq (map speaker pyannoteSpeakers))"

text \<open>\<open>uniqueSpeakers.forEach((speaker, index) => speakerMap.set(speaker, index + 1))\<close>\<close>

definition speakerMap :: "PyannoteSegment list \<Rightarrow> (string \<rightharpoonup> int)" where
  "speakerMap pyannoteSpeakers =
     fold (\<lambda>(index, speaker) m. m(speaker \<mapsto> int index + 1))
          (enumerate 0 (uniqueSpeakers pyannoteSpeakers)) Map.empty"

text \<open>
  The \<open>for (const ps of pyannoteSpeakers)\<close> loop with its \<open>break\<close>: the label of the first
  span whose closed interval contains the midpoint, \<open>'SPEAKER_00'\<close> when there is none.
\<close>

definition covers :: "PyannoteSegment \<Rightarrow> real \<Rightarrow> bool" where
  "covers ps segmentMid = (pstart ps \<le> segmentMid \<and> segmentMid \<le> pend ps)"

fun assignedSpeaker :: "PyannoteSegment list \<Rightarrow> real \<Rightarrow> string" where
  "assignedSpeaker [] segmentMid = ''SPEAKER_00''"
| "assignedSpeaker (ps # rest) segmentMid =
     (if covers ps segmentMid then speaker ps else assignedSpeaker rest segmentMid)"

text \<open>\<open>speakerMap.get(assignedSpeaker) || 1\<close>: a missing entry and the number 0 are falsy.\<close>

definition assignSpeaker :: "PyannoteSegment list \<Rightarrow> TranscriptSegment \<Rightarrow> TranscriptSegment" where
  "assignSpeaker pyannoteSpeakers segment =
     (let segmentMid = (startTime segment + endTime segment) / 2 in
      segment\<lparr>speakerTag :=
        (case speakerMap pyannoteSpeakers (assignedSpeaker pyannoteSpeakers segmentMid) of
           None \<Rightarrow> 1
         | Some t \<Rightarrow> if t = 0 then 1 else t)\<rparr>)"

definition segmentsWithSpeakers ::
    "PyannoteSegment list \<Rightarrow> TranscriptSegment list \<Rightarrow> TranscriptSegment list" where
  "segmentsWithSpeakers pyannoteSpeakers segments = map (assignSpeaker pyannoteSpeakers) segments"

subsection \<open>Merging consecutive segments of one speaker\<close>

definition toMerged :: "TranscriptSegment \<Rightarrow> MergedSegment" where
  "toMerged segment =
     \<lparr>m_speakerTag = speakerTag segment, m_transcript = transcript segment,
      m_startTime = startTime segment, m_endTime = endTime segment,
      m_confidence = confidence segment\<rparr>"

text \<open>
  The loop of \<open>assignSpeakersAndMergeSegments\<close> over \<open>segmentsWithSpeakers\<close>, with its two
  variables \<open>mergedSegments\<close> and \<open>current\<close>, followed by the final push of \<open>current\<close>.
\<close>

fun mergeLoop ::
    "MergedSegment list \<Rightarrow> MergedSegment option \<Rightarrow> TranscriptSegment list \<Rightarrow> MergedSegment list" where
  "mergeLoop mergedSegments None [] = mergedSegments"
| "mergeLoop mergedSegments (Some current) [] = mergedSegments @ [current]"
| "mergeLoop mergedSegments None (segment # rest) =
     mergeLoop mergedSegments (Some (toMerged segment)) rest"
| "mergeLoop mergedSegments (Some current) (segment # rest) =
     (if speakerTag segment = m_speakerTag current then
        mergeLoop mergedSegments
          (Some (current\<lparr>m_transcript := m_transcript current @ '' '' @ transcript segment,
                         m_endTime := endTime segment,
                         m_confidence := min (m_confidence current) (confidence segment)\<rparr>))
          rest
      else mergeLoop (mergedSegments @ [current]) (Some (toMerged segment)) rest)"

definition mergeAssigned :: "TranscriptSegment list \<Rightarrow> MergedSegment list" where
  "mergeAssigned segs = mergeLoop [] None segs"

text \<open>The merged list that the reconciler writes for given segments and diarization spans.\<close>

definition reconcile :: "PyannoteSegment list \<Rightarrow> TranscriptSegment list \<Rightarrow> MergedSegment list" where
  "reconcile pyannoteSpeakers segments =
     mergeAssigned (segmentsWithSpeakers pyannoteSpeakers segments)"

text \<open>
  \<open>mergeConsecutiveSpeakerSegments\<close>, the merge of the batch transcription path: the loop
  from index 1 with the variable \<open>current\<close>, a copy of \<open>segments[0]\<close>.
\<close>

fun mergeConsecutiveLoop ::
    "DiarizedSegment list \<Rightarrow> DiarizedSegment \<Rightarrow> DiarizedSegment list \<Rightarrow> DiarizedSegment list" where
  "mergeConsecutiveLoop merged current [] = merged @ [current]"
| "mergeConsecutiveLoop merged current (segment # rest) =
     (if d_speakerTag segment = d_speakerTag current then
        mergeConsecutiveLoop merged
          (current\<lparr>d_transcript := d_transcript current @ '' '' @ d_transcript segment,
                   d_endTime := d_endTime segment\<rparr>)
          rest
      else mergeConsecutiveLoop (merged @ [current]) segment rest)"

fun mergeConsecutiveSpeakerSegments :: "DiarizedSegment list \<Rightarrow> DiarizedSegment list" where
  "mergeConsecutiveSpeakerSegments [] = []"
| "mergeConsecutiveSpeakerSegments (first # rest) = mergeConsecutiveLoop [] first rest"

subsection \<open>Persisting the merged list\<close>

text \<open>
  The segment repository is a list of rows. Its writes (\<open>delete\<close>, \<open>save\<close>) can throw:
  \<open>failAfter\<close> is the number of writes that still succeed before one throws (\<open>None\<close>:
  no write ever throws). A write that throws leaves the rows as they are. No transaction is
  opened anywhere in the service, so each write is visible as soon as it returns.
\<close>

datatype error = PersistenceError | ConversionError | DiarizationError | TranscriptionError

record Store =
  rows :: "TranscriptSegment list"
  failAfter :: "nat option"

definition repo_write ::
    "(TranscriptSegment list \<Rightarrow> TranscriptSegment list) \<Rightarrow> Store \<Rightarrow> error option \<times> Store" where
  "repo_write f st =
     (case failAfter st of
        None \<Rightarrow> (None, st\<lparr>rows := f (rows st)\<rparr>)
      | Some 0 \<Rightarrow> (Some PersistenceError, st)
      | Some (Suc k) \<Rightarrow> (None, \<lparr>rows = f (rows st), failAfter = Some k\<rparr>))"

text \<open>\<open>segmentRepository.delete({ meetingId })\<close>\<close>

definition repo_delete :: "string \<Rightarrow> Store \<Rightarrow> error option \<times> Store" where
  "repo_delete mid st = repo_write (filter (\<lambda>r. meetingId r \<noteq> mid)) st"

text \<open>\<open>segmentRepository.save(newSegment)\<close> of an entity with a fresh id: an insert.\<close>

definition repo_save :: "TranscriptSegment \<Rightarrow> Store \<Rightarrow> error option \<times> Store" where
  "repo_save seg st = repo_write (\<lambda>rs. rs @ [seg]) st"

text \<open>
  \<open>segmentRepository.find({ where: { meetingId }, order: { startTime: 'ASC' } })\<close>; reads
  do not throw in the model.
\<close>

definition repo_find :: "string \<Rightarrow> Store \<Rightarrow> TranscriptSegment list" where
  "repo_find mid st = sort_key startTime (filter (\<lambda>r. meetingId r = mid) (rows st))"

text \<open>\<open>segmentRepository.create({...})\<close> in \<open>assignSpeakersAndMergeSegments\<close>.\<close>

definition newSegment :: "string \<Rightarrow> MergedSegment \<Rightarrow> TranscriptSegment" where
  "newSegment mid segment =
     \<lparr>meetingId = mid, speakerTag = m_speakerTag segment, speakerName = None,
      transcript = m_transcript segment, confidence = m_confidence segment,
      startTime = m_startTime segment, endTime = m_endTime segment, isFinal = True\<rparr>"

text \<open>The \<open>for (const segment of mergedSegments)\<close> loop: an exception leaves the loop.\<close>

fun saveLoop :: "TranscriptSegment list \<Rightarrow> Store \<Rightarrow> error option \<times> Store" where
  "saveLoop [] st = (None, st)"
| "saveLoop (segment # rest) st =
     (case repo_save segment st of
        (Some e, st') \<Rightarrow> (Some e, st')
      | (None, st') \<Rightarrow> saveLoop rest st')"

text \<open>
  \<open>assignSpeakersAndMergeSegments\<close>: the returned error is the exception that the
  \<open>async\<close> function rejects with; the store is returned in both cases.
\<close>

definition assignSpeakersAndMergeSegments ::
    "string \<Rightarrow> TranscriptSegment list \<Rightarrow> PyannoteSegment list \<Rightarrow> Store \<Rightarrow> error option \<times> Store" where
  "assignSpeakersAndMergeSegments mid segments pyannoteSpeakers st =
     (let mergedSegments = reconcile pyannoteSpeakers segments in
      case repo_delete mid st of
        (Some e, st') \<Rightarrow> (Some e, st')
      | (None, st') \<Rightarrow> saveLoop (map (newSegment mid) mergedSegments) st')"

text \<open>
  \<open>segmentRepository.create({...})\<close> in \<open>updateTranscriptSegments\<close>, with
  \<open>speakerMappings.get(segment.speakerTag)\<close> and \<open>segment.confidence ?? 1.0\<close>.
\<close>

definition newBatchSegment :: "string \<Rightarrow> (int \<rightharpoonup> string) \<Rightarrow> DiarizedSegment \<Rightarrow> TranscriptSegment" where
  "newBatchSegment mid speakerMappings segment =
     \<lparr>meetingId = mid, speakerTag = d_speakerTag segment,
      speakerName = speakerMappings (d_speakerTag segment),
      transcript = d_transcript segment,
      confidence = (case d_confidence segment of None \<Rightarrow> 1 | Some c \<Rightarrow> c),
      startTime = d_startTime segment, endTime = d_endTime segment, isFinal = True\<rparr>"

definition updateTranscriptSegments ::
    "string \<Rightarrow> DiarizedSegment list \<Rightarrow> (int \<rightharpoonup> string) \<Rightarrow> Store \<Rightarrow> error option \<times> Store" where
  "updateTranscriptSegments mid segments speakerMappings st =
     (let mergedSegments = mergeConsecutiveSpeakerSegments segments in
      case repo_delete mid st of
        (Some e, st') \<Rightarrow> (Some e, st')
      | (None, st') \<Rightarrow> saveLoop (map (newBatchSegment mid speakerMappings) mergedSegments) st')"

subsection \<open>The post-processing job\<close>

text \<open>
  What \<open>processAudioFile\<close> reads from its collaborators: whether a diarization service
  is configured, whether the audio file is already a WAV file and whether the conversion
  throws, what the diarization call returns or throws, whether Google Speech is
  available, what \<open>transcribeFile\<close> returns (already in \<open>DiarizedSegment\<close> format) or
  throws, and the speaker mappings of the meeting. Summarization is left out: its
  exceptions are caught where it is called and it touches neither the segments nor
  the status.
\<close>

record Env =
  diarizationAvailable :: bool
  isWav :: bool
  convertToWav :: "error option"
  callPyannoteDiarization :: "error + PyannoteSegment list"
  speechAvailable :: bool
  transcribeFile :: "error + DiarizedSegment list"
  getSpeakerMappings :: "int \<rightharpoonup> string"

record Sys =
  store :: Store
  status :: string

text \<open>
  The body of the \<open>if (existingSegments.length > 0)\<close> branch up to the status update:
  \<open>Inl\<close> is an exception that reaches the outer \<open>catch\<close>. The inner \<open>try\<close> encloses
  both the diarization call and \<open>assignSpeakersAndMergeSegments\<close>, and its \<open>catch\<close>
  only logs.
\<close>

definition diarizeExisting ::
    "string \<Rightarrow> Env \<Rightarrow> TranscriptSegment list \<Rightarrow> Store \<Rightarrow> error + Store" where
  "diarizeExisting mid env existingSegments st =
     (if diarizationAvailable env then
        (case (if isWav env then None else convertToWav env) of
           Some e \<Rightarrow> Inl e
         | None \<Rightarrow>
            (case callPyannoteDiarization env of
               Inl diarError \<Rightarrow> Inr st
             | Inr spans \<Rightarrow>
                Inr (snd (assignSpeakersAndMergeSegments mid existingSegments spans st))))
      else Inr st)"

text \<open>The batch transcription path, taken when no live segment exists.\<close>

definition transcribeBatch :: "string \<Rightarrow> Env \<Rightarrow> Store \<Rightarrow> error \<times> Store + Store" where
  "transcribeBatch mid env st =
     (if \<not> speechAvailable env then Inr st
      else
        (case (if isWav env then None else convertToWav env) of
           Some e \<Rightarrow> Inl (e, st)
         | None \<Rightarrow>
            (case transcribeFile env of
               Inl e \<Rightarrow> Inl (e, st)
             | Inr diarizedSegments \<Rightarrow>
                if diarizedSegments = [] then Inr st
                else
                  (case updateTranscriptSegments mid diarizedSegments (getSpeakerMappings env) st of
                     (Some e, st') \<Rightarrow> Inl (e, st')
                   | (None, st') \<Rightarrow> Inr st'))))"

text \<open>
  \<open>processAudioFile\<close>: every normal path ends with \<open>updateMeetingStatus(meetingId,
  'completed')\<close>, the outer \<open>catch\<close> with \<open>updateMeetingStatus(meetingId, 'failed')\<close>.
\<close>

definition processAudioFile :: "string \<Rightarrow> Env \<Rightarrow> Sys \<Rightarrow> Sys" where
  "processAudioFile mid env sys =
     (let existingSegments = repo_find mid (store sys) in
      if existingSegments \<noteq> [] then
        (case diarizeExisting mid env existingSegments (store sys) of
           Inl e \<Rightarrow> sys\<lparr>status := ''failed''\<rparr>
         | Inr st' \<Rightarrow> \<lparr>store = st', status = ''completed''\<rparr>)
      else
        (case transcribeBatch mid env (store sys) of
           Inl (e, st') \<Rightarrow> \<lparr>store = st', status = ''failed''\<rparr>
         | Inr st' \<Rightarrow> \<lparr>store = st', status = ''completed''\<rparr>))"

section \<open>JavaScript strings\<close>

text \<open>
  A JavaScript string is a sequence of UTF-16 code units. Text that the program only
  stores, compares or concatenates is kept as \<open>string\<close>; text that it trims, matches
  against a regular expression or converts in case is a \<open>jstring\<close>, a list of code units
  given by their numbers (integers from 0 to 65535), so that the character classes below are the
  complete ones of the language. \<open>cu\<close> and \<open>js\<close> give the code units of an ASCII
  character and of an ASCII literal.
\<close>

type_synonym codeunit = int

type_synonym jstring = "codeunit list"

definition cu :: "char \<Rightarrow> codeunit" where
  "cu c = of_char c"

definition js :: "string \<Rightarrow> jstring" where
  "js s = map of_char s"

text \<open>
  \<open>is_space\<close> is the class \<open>\s\<close>, which is also what \<open>trim\<close> removes: the white space
  code points U+0009 (tab), U+000B, U+000C, U+0020 (space), U+00A0, U+FEFF and the
  space separators U+1680, U+2000 to U+200A, U+202F, U+205F, U+3000, together with the
  line terminators U+000A, U+000D, U+2028 and U+2029.
\<close>

definition is_space :: "codeunit \<Rightarrow> bool" where
  "is_space u =
     ((0x09 \<le> u \<and> u \<le> 0x0D) \<or> u = 0x20 \<or> u = 0xA0 \<or> u = 0x1680 \<or>
      (0x2000 \<le> u \<and> u \<le> 0x200A) \<or> (0x2028 \<le> u \<and> u \<le> 0x2029) \<or> u = 0x202F \<or>
      u = 0x205F \<or> u = 0x3000 \<or> u = 0xFEFF)"

definition trim :: "jstring \<Rightarrow> jstring" where
  "trim s = rev (dropWhile is_space (rev (dropWhile is_space s)))"

section \<open>Result normalizers (google-speech.service.ts, Deepgram service)\<close>

subsection \<open>Speaker tag counts\<close>

text \<open>
  \<open>Map<number, number>\<close> iterates in insertion order and \<open>set\<close> on a present key keeps
  the key's place: an association list, updated in place or extended at the end.
\<close>

fun map_set :: "('k \<times> 'v) list \<Rightarrow> 'k \<Rightarrow> 'v \<Rightarrow> ('k \<times> 'v) list" where
  "map_set [] k v = [(k, v)]"
| "map_set ((k', v') # m) k v = (if k' = k then (k, v) # m else (k', v') # map_set m k v)"

text \<open>\<open>speakerTagCounts.set(tag, (speakerTagCounts.get(tag) || 0) + 1)\<close>\<close>

definition countTag :: "(int \<times> nat) list \<Rightarrow> int \<Rightarrow> (int \<times> nat) list" where
  "countTag speakerTagCounts tag =
     map_set speakerTagCounts tag ((case map_of speakerTagCounts tag of None \<Rightarrow> 0 | Some c \<Rightarrow> c) + 1)"

text \<open>
  The loop \<open>for (const [tag, count] of speakerTagCounts) if (count > maxCount) ...\<close> on the
  pair of \<open>speakerTag\<close> (here \<open>best\<close>) and \<open>maxCount\<close>, which starts as \<open>(1, 0)\<close>.
\<close>

definition dominantStep :: "int \<times> nat \<Rightarrow> int \<times> nat \<Rightarrow> int \<times> nat" where
  "dominantStep entry acc =
     (case entry of (tag, count) \<Rightarrow> case acc of (best, maxCount) \<Rightarrow>
        if count > maxCount then (tag, count) else (best, maxCount))"

definition dominantSpeaker :: "(int \<times> nat) list \<Rightarrow> int" where
  "dominantSpeaker speakerTagCounts = fst (fold dominantStep speakerTagCounts (1, 0))"

subsection \<open>Google: \<open>handleStreamData\<close>\<close>

text \<open>
  The provider payload, with every optional field as an option. \<open>seconds\<close> and \<open>nanos\<close>
  of a protobuf duration are integers, which \<open>parseInt\<close> returns as they are.
\<close>

record Duration =
  seconds :: "int option"
  nanos :: "int option"

record IWordInfo =
  wi_word :: "string option"
  wi_speakerTag :: "int option"
  wi_startTime :: "Duration option"
  wi_endTime :: "Duration option"

record Alternative =
  alt_transcript :: "string option"
  alt_confidence :: "real option"
  alt_words :: "IWordInfo list option"

record RecognitionResult =
  alternatives :: "Alternative list option"
  r_isFinal :: "bool option"

record StreamData =
  results :: "RecognitionResult list option"

record Word =
  w_word :: string
  w_speakerTag :: int
  w_startTime :: real
  w_endTime :: real

record TranscriptResult =
  tr_transcript :: string
  tr_confidence :: real
  tr_isFinal :: bool
  tr_speakerTag :: int
  tr_startTime :: real
  tr_endTime :: real
  tr_words :: "Word list"

text \<open>\<open>durationToSeconds\<close>; \<open>x || '0'\<close> replaces a missing field and the number 0.\<close>

definition durationToSeconds :: "Duration option \<Rightarrow> real" where
  "durationToSeconds duration =
     (case duration of
        None \<Rightarrow> 0
      | Some d \<Rightarrow>
          real_of_int (case seconds d of None \<Rightarrow> 0 | Some n \<Rightarrow> n)
          + real_of_int (case nanos d of None \<Rightarrow> 0 | Some n \<Rightarrow> n) / 1000000000)"

text \<open>The variables of the word loop: \<open>words\<close>, \<open>startTime\<close>, \<open>endTime\<close>, \<open>speakerTagCounts\<close>.\<close>

record WordLoop =
  l_words :: "Word list"
  l_startTime :: real
  l_endTime :: real
  l_speakerTagCounts :: "(int \<times> nat) list"

definition wordLoopInit :: WordLoop where
  "wordLoopInit = \<lparr>l_words = [], l_startTime = 0, l_endTime = 0, l_speakerTagCounts = []\<rparr>"

text \<open>One iteration of \<open>for (const wordInfo of alternative.words)\<close> in \<open>handleStreamData\<close>.\<close>

definition googleWordStep :: "IWordInfo \<Rightarrow> WordLoop \<Rightarrow> WordLoop" where
  "googleWordStep wordInfo l =
     (let wordStartTime = durationToSeconds (wi_startTime wordInfo);
          wordEndTime = durationToSeconds (wi_endTime wordInfo);
          wordSpeakerTag = (case wi_speakerTag wordInfo of
                              None \<Rightarrow> 1 | Some t \<Rightarrow> if t = 0 then 1 else t)
      in \<lparr>l_words = l_words l @
             [\<lparr>w_word = (case wi_word wordInfo of None \<Rightarrow> [] | Some w \<Rightarrow> w),
               w_speakerTag = wordSpeakerTag,
               w_startTime = wordStartTime, w_endTime = wordEndTime\<rparr>],
           l_startTime = (if l_startTime l = 0 then wordStartTime else l_startTime l),
           l_endTime = wordEndTime,
           l_speakerTagCounts = countTag (l_speakerTagCounts l) wordSpeakerTag\<rparr>)"

text \<open>
  \<open>handleStreamData\<close>: the value is the \<open>TranscriptResult\<close> emitted as \<open>'transcript'\<close>,
  \<open>None\<close> when the function returns without emitting.
\<close>

definition handleStreamData :: "StreamData \<Rightarrow> TranscriptResult option" where
  "handleStreamData data =
     (case results data of
        None \<Rightarrow> None
      | Some [] \<Rightarrow> None
      | Some (result # _) \<Rightarrow>
         (case alternatives result of
            None \<Rightarrow> None
          | Some [] \<Rightarrow> None
          | Some (alternative # _) \<Rightarrow>
             (let l = (case alt_words alternative of
                         None \<Rightarrow> wordLoopInit
                       | Some ws \<Rightarrow> fold googleWordStep ws wordLoopInit)
              in Some \<lparr>tr_transcript = (case alt_transcript alternative of None \<Rightarrow> [] | Some t \<Rightarrow> t),
                       tr_confidence = (case alt_confidence alternative of None \<Rightarrow> 0 | Some c \<Rightarrow> c),
                       tr_isFinal = (case r_isFinal result of None \<Rightarrow> False | Some b \<Rightarrow> b),
                       tr_speakerTag = dominantSpeaker (l_speakerTagCounts l),
                       tr_startTime = l_startTime l,
                       tr_endTime = l_endTime l,
                       tr_words = l_words l\<rparr>)))"

subsection \<open>Deepgram: \<open>handleTranscript\<close>\<close>

record DgWordInfo =
  dg_word :: "string option"
  dg_punctuated_word :: "string option"
  dg_speaker :: "int option"
  dg_start :: "real option"
  dg_end :: "real option"
  dg_confidence :: "real option"

record DgAlternative =
  dga_transcript :: "jstring option"
  dga_confidence :: "real option"
  dga_words :: "DgWordInfo list option"

record DgChannel =
  dg_alternatives :: "DgAlternative list option"

record DgData =
  channel :: "DgChannel option"
  is_final :: "bool option"

record DgWord =
  dw_word :: string
  dw_speakerTag :: int
  dw_startTime :: real
  dw_endTime :: real
  dw_confidence :: real

record DeepgramTranscriptResult =
  dr_transcript :: jstring
  dr_confidence :: real
  dr_isFinal :: bool
  dr_speakerTag :: int
  dr_startTime :: real
  dr_endTime :: real
  dr_words :: "DgWord list"

record DgWordLoop =
  dl_words :: "DgWord list"
  dl_startTime :: real
  dl_endTime :: real
  dl_speakerTagCounts :: "(int \<times> nat) list"

definition dgWordLoopInit :: DgWordLoop where
  "dgWordLoopInit = \<lparr>dl_words = [], dl_startTime = 0, dl_endTime = 0, dl_speakerTagCounts = []\<rparr>"

text \<open>\<open>x || y\<close> on optional strings and numbers: a missing value, \<open>''\<close> and 0 are falsy.\<close>

definition orString :: "string option \<Rightarrow> string \<Rightarrow> string" where
  "orString x y = (case x of None \<Rightarrow> y | Some s \<Rightarrow> if s = [] then y else s)"

definition orZero :: "real option \<Rightarrow> real" where
  "orZero x = (case x of None \<Rightarrow> 0 | Some r \<Rightarrow> r)"

text \<open>One iteration of \<open>for (const wordInfo of alternative.words)\<close> in \<open>handleTranscript\<close>.\<close>

definition dgWordStep :: "DgWordInfo \<Rightarrow> DgWordLoop \<Rightarrow> DgWordLoop" where
  "dgWordStep wordInfo l =
     (let tag = (case dg_speaker wordInfo of None \<Rightarrow> 0 | Some n \<Rightarrow> n) + 1
      in \<lparr>dl_words = dl_words l @
             [\<lparr>dw_word = orString (dg_word wordInfo) (orString (dg_punctuated_word wordInfo) []),
               dw_speakerTag = tag,
               dw_startTime = orZero (dg_start wordInfo),
               dw_endTime = orZero (dg_end wordInfo),
               dw_confidence = orZero (dg_confidence wordInfo)\<rparr>],
           dl_startTime = (if dl_startTime l = 0 then orZero (dg_start wordInfo) else dl_startTime l),
           dl_endTime = orZero (dg_end wordInfo),
           dl_speakerTagCounts = countTag (dl_speakerTagCounts l) tag\<rparr>)"

definition handleTranscript :: "DgData \<Rightarrow> DeepgramTranscriptResult option" where
  "handleTranscript data =
     (case channel data of
        None \<Rightarrow> None
      | Some ch \<Rightarrow>
         (case dg_alternatives ch of
            None \<Rightarrow> None
          | Some [] \<Rightarrow> None
          | Some (alternative # _) \<Rightarrow>
             (case dga_transcript alternative of
                None \<Rightarrow> None
              | Some text \<Rightarrow>
                 if text = [] \<or> trim text = [] then None
                 else
                   (let l = (case dga_words alternative of
                               None \<Rightarrow> dgWordLoopInit
                             | Some ws \<Rightarrow> fold dgWordStep ws dgWordLoopInit)
                    in Some \<lparr>dr_transcript = trim text,
                             dr_confidence = orZero (dga_confidence alternative),
                             dr_isFinal = (case is_final data of None \<Rightarrow> False | Some b \<Rightarrow> b),
                             dr_speakerTag = dominantSpeaker (dl_speakerTagCounts l),
                             dr_startTime = dl_startTime l,
                             dr_endTime = dl_endTime l,
                             dr_words = dl_words l\<rparr>))))"

text \<open>
  The statement to compare with: the tag of the first word, in word order, whose tag
  has the highest word count of the utterance.
\<close>

definition firstMostFrequent :: "int list \<Rightarrow> int option" where
  "firstMostFrequent tags =
     find (\<lambda>t. \<forall>t' \<in> set tags. count_list tags t' \<le> count_list tags t) tags"

section \<open>Provider adapter: the Google stream session (google-speech.service.ts)\<close>

text \<open>
  A provider stream is an object of the client library. The model keeps every stream
  that was ever created in \<open>streams\<close>, addressed by its index, with the frames written
  to it; a session refers to its current stream by index. \<open>writeThrows\<close> and
  \<open>endThrows\<close> say whether the next \<open>write\<close> (with which message) or \<open>end\<close> of the stream
  throws. \<open>Date.now()\<close> is a parameter of the operations that read the clock, and the
  timers set by \<open>setTimeout\<close> are the list \<open>pendingRestarts\<close> of session ids.
\<close>

type_synonym Buffer = "nat list"

record ProviderStream =
  destroyed :: bool
  writableEnded :: bool
  written :: "Buffer list"
  writeThrows :: "string option"
  endThrows :: bool

record StreamSession =
  recognizeStream :: "nat option"
  isActive :: bool
  restartCount :: nat
  audioInputStreamTimestamp :: int

record Service =
  sessions :: "string \<rightharpoonup> StreamSession"
  streams :: "ProviderStream list"
  pendingRestarts :: "string list"
  emitted :: "(string \<times> string) list"

definition streamingLimit :: int where
  "streamingLimit = 290000"

text \<open>\<open>recognizeStream.end()\<close>: an exception is caught by the caller and ignored.\<close>

definition endStream :: "nat \<Rightarrow> ProviderStream list \<Rightarrow> ProviderStream list" where
  "endStream i ss =
     (if i < length ss \<and> \<not> endThrows (ss ! i) then ss[i := (ss ! i)\<lparr>writableEnded := True\<rparr>]
      else ss)"

text \<open>\<open>restartStream(session)\<close> for the session stored under \<open>sid\<close>.\<close>

definition restartStream :: "string \<Rightarrow> Service \<Rightarrow> Service" where
  "restartStream sid svc =
     (case sessions svc sid of
        None \<Rightarrow> svc
      | Some session \<Rightarrow>
          if \<not> isActive session then svc
          else
            svc\<lparr>sessions := (sessions svc)(sid \<mapsto>
                    session\<lparr>restartCount := restartCount session + 1,
                            isActive := False,
                            recognizeStream := None\<rparr>),
                streams := (case recognizeStream session of
                              None \<Rightarrow> streams svc
                            | Some i \<Rightarrow> endStream i (streams svc)),
                pendingRestarts := pendingRestarts svc @ [sid]\<rparr>)"

text \<open>
  \<open>createRecognizeStream(session)\<close>: a new stream, \<open>isActive = true\<close> and a new
  \<open>audioInputStreamTimestamp\<close>.
\<close>

definition createRecognizeStream :: "string \<Rightarrow> int \<Rightarrow> Service \<Rightarrow> Service" where
  "createRecognizeStream sid now svc =
     (case sessions svc sid of
        None \<Rightarrow> svc
      | Some session \<Rightarrow>
          svc\<lparr>sessions := (sessions svc)(sid \<mapsto>
                  session\<lparr>recognizeStream := Some (length (streams svc)),
                          isActive := True,
                          audioInputStreamTimestamp := now\<rparr>),
              streams := streams svc @
                [\<lparr>destroyed = False, writableEnded = False, written = [],
                  writeThrows = None, endThrows = False\<rparr>]\<rparr>)"

text \<open>The callback of the \<open>setTimeout\<close> in \<open>restartStream\<close>, for the oldest pending timer.\<close>

definition restartTimerFires :: "int \<Rightarrow> Service \<Rightarrow> Service" where
  "restartTimerFires now svc =
     (case pendingRestarts svc of
        [] \<Rightarrow> svc
      | sid # rest \<Rightarrow>
          (let svc' = svc\<lparr>pendingRestarts := rest\<rparr> in
           if sessions svc' sid \<noteq> None then
             (let svc'' = createRecognizeStream sid now svc' in
              svc''\<lparr>emitted := emitted svc'' @ [(sid, ''restarted'')]\<rparr>)
           else svc'))"

text \<open>
  \<open>writeAudio(sessionId, audioData)\<close> at clock \<open>now\<close>: the returned boolean and the
  service afterwards. A stream index that refers to no stream does not occur in a
  reachable state; the model treats it as no stream.
\<close>

definition writeAudio :: "string \<Rightarrow> Buffer \<Rightarrow> int \<Rightarrow> Service \<Rightarrow> bool \<times> Service" where
  "writeAudio sessionId audioData now svc =
     (case sessions svc sessionId of
        None \<Rightarrow> (False, svc)
      | Some session \<Rightarrow>
         (case recognizeStream session of
            None \<Rightarrow> (False, svc)
          | Some i \<Rightarrow>
             if i \<ge> length (streams svc) \<or> \<not> isActive session then (False, svc)
             else if destroyed (streams svc ! i) \<or> writableEnded (streams svc ! i) then (False, svc)
             else if now - audioInputStreamTimestamp session > streamingLimit then
               (True, restartStream sessionId svc)
             else
               (case writeThrows (streams svc ! i) of
                  None \<Rightarrow>
                    (True, svc\<lparr>streams := (streams svc)
                              [i := (streams svc ! i)\<lparr>written := written (streams svc ! i) @ [audioData]\<rparr>]\<rparr>)
                | Some message \<Rightarrow>
                    if sublist ''write after'' message \<or> sublist ''destroyed'' message
                    then (False, restartStream sessionId svc)
                    else (False, svc))))"

section \<open>JavaScript regular expressions\<close>

text \<open>
  The regular expressions of the name extractor are values of \<open>re\<close>, written after the
  source's patterns, and are run by a backtracking matcher with JavaScript's priorities:
  alternatives are tried from left to right, \<open>*\<close> is greedy, and the first way to match
  wins. \<open>matches\<close> returns every way in which a pattern can match at a position, in the
  order in which backtracking would find them, so the head of the list is the match that
  JavaScript reports. A position is the text consumed so far (reversed), the text that
  remains, and the captures recorded so far.
\<close>

datatype re =
    Lit codeunit
  | Cls bool "(codeunit \<times> codeunit) list"
  | AnyChar
  | Eps
  | Seq re re
  | Alt re re
  | Star re
  | Grp nat re
  | Bol
  | Eol
  | WordB

type_synonym mstate = "jstring \<times> jstring \<times> (nat \<times> jstring) list"

text \<open>
  Case conversion of one code unit. \<open>upper_char\<close> and \<open>lower_char\<close> convert the ASCII
  letters; they serve the flag \<open>i\<close> below, and \<open>upper_char\<close> is \<open>toUpperCase\<close> on ASCII
  text, the only text on which the claims below use it. \<open>toLowerCase\<close> also converts
  the Latin-1 capital letters U+00C0 to U+00DE (U+00D7, the multiplication sign, is no
  letter), which makes it JavaScript's \<open>toLowerCase\<close> on every string of code units below
  U+0100; the case tables of the code points above are outside the model.
\<close>

definition upper_char :: "codeunit \<Rightarrow> codeunit" where
  "upper_char u = (if cu CHR ''a'' \<le> u \<and> u \<le> cu CHR ''z'' then u - 32 else u)"

definition lower_char :: "codeunit \<Rightarrow> codeunit" where
  "lower_char u = (if cu CHR ''A'' \<le> u \<and> u \<le> cu CHR ''Z'' then u + 32 else u)"

definition toLowerCase :: "jstring \<Rightarrow> jstring" where
  "toLowerCase s =
     map (\<lambda>u. if 0xC0 \<le> u \<and> u \<le> 0xDE \<and> u \<noteq> 0xD7 then u + 32 else lower_char u) s"

definition toUpperCase :: "jstring \<Rightarrow> jstring" where
  "toUpperCase s = map upper_char s"


text \<open>The characters of \<open>\w\<close>, which decide \<open>\b\<close>.\<close>

definition is_word_char :: "codeunit \<Rightarrow> bool" where
  "is_word_char u =
     ((cu CHR ''a'' \<le> u \<and> u \<le> cu CHR ''z'') \<or> (cu CHR ''A'' \<le> u \<and> u \<le> cu CHR ''Z'') \<or>
      (cu CHR ''0'' \<le> u \<and> u \<le> cu CHR ''9'') \<or> u = cu CHR ''_'')"

text \<open>The line terminators, which \<open>.\<close> does not match.\<close>

definition is_line_terminator :: "codeunit \<Rightarrow> bool" where
  "is_line_terminator u = (u = 0x0A \<or> u = 0x0D \<or> u = 0x2028 \<or> u = 0x2029)"

text \<open>
  Comparison of characters under the flag \<open>i\<close>: both sides are canonicalized by
  \<open>toUpperCase\<close>, and a class contains a character when one of its members has the same
  canonical form. JavaScript never canonicalizes a code unit from U+0080 on to an ASCII
  one, and every literal and every class member of the patterns below is either an ASCII
  character or a white space character, which has no case; so the conversion of the
  ASCII letters decides these comparisons for every code unit.
\<close>

definition char_eq :: "bool \<Rightarrow> codeunit \<Rightarrow> codeunit \<Rightarrow> bool" where
  "char_eq ic a x = (if ic then upper_char a = upper_char x else a = x)"

definition in_range :: "codeunit \<times> codeunit \<Rightarrow> codeunit \<Rightarrow> bool" where
  "in_range r x = (fst r \<le> x \<and> x \<le> snd r)"

definition in_class :: "bool \<Rightarrow> (codeunit \<times> codeunit) list \<Rightarrow> codeunit \<Rightarrow> bool" where
  "in_class ic rs x =
     list_ex (\<lambda>r. in_range r x \<or> (ic \<and> (in_range r (lower_char x) \<or> in_range r (upper_char x)))) rs"

definition at_word_boundary :: "jstring \<Rightarrow> jstring \<Rightarrow> bool" where
  "at_word_boundary c r =
     ((case c of [] \<Rightarrow> False | x # _ \<Rightarrow> is_word_char x) \<noteq>
      (case r of [] \<Rightarrow> False | x # _ \<Rightarrow> is_word_char x))"

text \<open>
  \<open>matches ic p st\<close>: the positions after a match of \<open>p\<close> that starts at \<open>st\<close>, in
  backtracking order; \<open>ic\<close> is the flag \<open>i\<close>. An iteration of \<open>*\<close> that consumes nothing
  is not continued, as in JavaScript. Captures of a group inside \<open>*\<close> are not reset
  between iterations; no pattern below reads such a capture.
\<close>

function matches :: "bool \<Rightarrow> re \<Rightarrow> mstate \<Rightarrow> mstate list" where
  "matches ic (Lit a) (c, r, g) =
     (case r of [] \<Rightarrow> [] | x # xs \<Rightarrow> if char_eq ic a x then [(x # c, xs, g)] else [])"
| "matches ic (Cls neg rs) (c, r, g) =
     (case r of [] \<Rightarrow> [] | x # xs \<Rightarrow> if in_class ic rs x \<noteq> neg then [(x # c, xs, g)] else [])"
| "matches ic AnyChar (c, r, g) =
     (case r of [] \<Rightarrow> [] | x # xs \<Rightarrow> if is_line_terminator x then [] else [(x # c, xs, g)])"
| "matches ic Eps (c, r, g) = [(c, r, g)]"
| "matches ic (Seq p q) (c, r, g) = concat (map (matches ic q) (matches ic p (c, r, g)))"
| "matches ic (Alt p q) (c, r, g) = matches ic p (c, r, g) @ matches ic q (c, r, g)"
| "matches ic (Star p) (c, r, g) =
     concat (map (\<lambda>st'. if length (fst (snd st')) < length r then matches ic (Star p) st' else [])
                 (matches ic p (c, r, g)))
     @ [(c, r, g)]"
| "matches ic (Grp n p) (c, r, g) =
     map (\<lambda>st'. (fst st', fst (snd st'),
                  (n, rev (take (length (fst st') - length c) (fst st'))) # snd (snd st')))
         (matches ic p (c, r, g))"
| "matches ic Bol (c, r, g) = (if c = [] then [(c, r, g)] else [])"
| "matches ic Eol (c, r, g) = (if r = [] then [(c, r, g)] else [])"
| "matches ic WordB (c, r, g) = (if at_word_boundary c r then [(c, r, g)] else [])"
  by pat_completeness auto
termination
  by (relation "measures [\<lambda>(ic, p, st). size p, \<lambda>(ic, p, st). length (fst (snd st))]") auto

subsection \<open>Pattern syntax\<close>

fun Seqs :: "re list \<Rightarrow> re" where
  "Seqs [] = Eps"
| "Seqs [p] = p"
| "Seqs (p # ps) = Seq p (Seqs ps)"

text \<open>\<open>p1|p2|...\<close>; the class with no member matches nothing.\<close>

fun Alts :: "re list \<Rightarrow> re" where
  "Alts [] = Cls False []"
| "Alts [p] = p"
| "Alts (p # ps) = Alt p (Alts ps)"

definition Str :: "jstring \<Rightarrow> re" where
  "Str s = Seqs (map Lit s)"

definition Plus :: "re \<Rightarrow> re" where
  "Plus p = Seq p (Star p)"

definition Opt :: "re \<Rightarrow> re" where
  "Opt p = Alt p Eps"

text \<open>\<open>p{2,}\<close>\<close>

definition AtLeast2 :: "re \<Rightarrow> re" where
  "AtLeast2 p = Seq p (Seq p (Star p))"

text \<open>The ranges of \<open>\s\<close> (the code units of \<open>is_space\<close>), and \<open>[a-z]\<close>.\<close>

definition space_ranges :: "(codeunit \<times> codeunit) list" where
  "space_ranges =
     [(0x09, 0x0D), (0x20, 0x20), (0xA0, 0xA0), (0x1680, 0x1680), (0x2000, 0x200A),
      (0x2028, 0x2029), (0x202F, 0x202F), (0x205F, 0x205F), (0x3000, 0x3000),
      (0xFEFF, 0xFEFF)]"

definition Space :: re where
  "Space = Cls False space_ranges"

definition Letter :: re where
  "Letter = Cls False [(cu CHR ''a'', cu CHR ''z'')]"

subsection \<open>Operations of \<open>String\<close> and \<open>RegExp\<close>\<close>

text \<open>
  \<open>exec\<close> without the flags \<open>g\<close> and \<open>y\<close>: the start positions are tried from left to
  right. The result is the text before the match (reversed) and the position after it.
\<close>

fun exec_from :: "bool \<Rightarrow> re \<Rightarrow> jstring \<Rightarrow> jstring \<Rightarrow> (jstring \<times> mstate) option" where
  "exec_from ic p c [] =
     (case matches ic p (c, [], []) of [] \<Rightarrow> None | m # _ \<Rightarrow> Some (c, m))"
| "exec_from ic p c (x # xs) =
     (case matches ic p (c, x # xs, []) of
        [] \<Rightarrow> exec_from ic p (x # c) xs
      | m # _ \<Rightarrow> Some (c, m))"

definition exec :: "bool \<Rightarrow> re \<Rightarrow> jstring \<Rightarrow> (jstring \<times> mstate) option" where
  "exec ic p s = exec_from ic p [] s"

text \<open>\<open>match[0]\<close> and \<open>match[n]\<close> of a successful \<open>exec\<close>.\<close>

definition matched :: "jstring \<times> mstate \<Rightarrow> jstring" where
  "matched m = (case m of (c0, (c1, r1, g)) \<Rightarrow> rev (take (length c1 - length c0) c1))"

definition group :: "nat \<Rightarrow> jstring \<times> mstate \<Rightarrow> jstring option" where
  "group n m = (case m of (c0, (c1, r1, g)) \<Rightarrow> map_of g n)"

text \<open>\<open>regex.test(s)\<close>\<close>

definition test :: "bool \<Rightarrow> re \<Rightarrow> jstring \<Rightarrow> bool" where
  "test ic p s = (exec ic p s \<noteq> None)"

text \<open>\<open>s.replace(regex, replacement)\<close> without the flag \<open>g\<close>: the first match is replaced.\<close>

definition replace_first :: "bool \<Rightarrow> re \<Rightarrow> jstring \<Rightarrow> jstring \<Rightarrow> jstring" where
  "replace_first ic p replacement s =
     (case exec ic p s of
        None \<Rightarrow> s
      | Some (c0, (c1, r1, g)) \<Rightarrow> rev c0 @ replacement @ r1)"

text \<open>
  The operations with the flag \<open>g\<close> walk through the string. \<open>skip\<close> counts the
  characters of the last match that are still to be passed: after a match of n > 0
  characters the search goes on behind it, after an empty match one character further.
\<close>

fun match_all_from :: "bool \<Rightarrow> re \<Rightarrow> nat \<Rightarrow> jstring \<Rightarrow> jstring \<Rightarrow> jstring list" where
  "match_all_from ic p skip c [] =
     (if skip > 0 then []
      else (case matches ic p (c, [], []) of [] \<Rightarrow> [] | m # _ \<Rightarrow> [matched (c, m)]))"
| "match_all_from ic p skip c (x # xs) =
     (if skip > 0 then match_all_from ic p (skip - 1) (x # c) xs
      else
        (case matches ic p (c, x # xs, []) of
           [] \<Rightarrow> match_all_from ic p 0 (x # c) xs
         | m # _ \<Rightarrow> matched (c, m) # match_all_from ic p (length (matched (c, m)) - 1) (x # c) xs))"

text \<open>\<open>s.match(regex)\<close> with the flag \<open>g\<close>: all matches, \<open>null\<close> (here \<open>[]\<close>) when there is none.\<close>

definition match_all :: "bool \<Rightarrow> re \<Rightarrow> jstring \<Rightarrow> jstring list" where
  "match_all ic p s = match_all_from ic p 0 [] s"

fun replace_all_from :: "bool \<Rightarrow> re \<Rightarrow> jstring \<Rightarrow> nat \<Rightarrow> jstring \<Rightarrow> jstring \<Rightarrow> jstring" where
  "replace_all_from ic p replacement skip c [] =
     (if skip > 0 then []
      else (case matches ic p (c, [], []) of [] \<Rightarrow> [] | m # _ \<Rightarrow> replacement))"
| "replace_all_from ic p replacement skip c (x # xs) =
     (if skip > 0 then replace_all_from ic p replacement (skip - 1) (x # c) xs
      else
        (case matches ic p (c, x # xs, []) of
           [] \<Rightarrow> x # replace_all_from ic p replacement 0 (x # c) xs
         | m # _ \<Rightarrow>
            if matched (c, m) = [] then replacement @ x # replace_all_from ic p replacement 0 (x # c) xs
            else replacement @
                 replace_all_from ic p replacement (length (matched (c, m)) - 1) (x # c) xs))"

text \<open>\<open>s.replace(regex, replacement)\<close> with the flag \<open>g\<close>.\<close>

definition replace_all :: "bool \<Rightarrow> re \<Rightarrow> jstring \<Rightarrow> jstring \<Rightarrow> jstring" where
  "replace_all ic p replacement s = replace_all_from ic p replacement 0 [] s"

text \<open>
  \<open>s.split(regex)\<close> for a pattern without capture groups: \<open>piece\<close> is the text since the
  last separator (reversed). An empty match at the start of a piece is no separator.
\<close>

fun split_from :: "bool \<Rightarrow> re \<Rightarrow> nat \<Rightarrow> jstring \<Rightarrow> jstring \<Rightarrow> jstring \<Rightarrow> jstring list" where
  "split_from ic p skip piece c [] = [rev piece]"
| "split_from ic p skip piece c (x # xs) =
     (if skip > 0 then split_from ic p (skip - 1) [] (x # c) xs
      else
        (case matches ic p (c, x # xs, []) of
           [] \<Rightarrow> split_from ic p 0 (x # piece) (x # c) xs
         | m # _ \<Rightarrow>
            if matched (c, m) = [] then
              (if piece = [] then split_from ic p 0 (x # piece) (x # c) xs
               else rev piece # split_from ic p 0 [x] (x # c) xs)
            else rev piece # split_from ic p (length (matched (c, m)) - 1) [] (x # c) xs))"

definition split :: "bool \<Rightarrow> re \<Rightarrow> jstring \<Rightarrow> jstring list" where
  "split ic p s =
     (if s = [] then (if matches ic p ([], [], []) = [] then [[]] else [])
      else split_from ic p 0 [] [] s)"

text \<open>\<open>parts.join(' ')\<close>\<close>

fun join :: "jstring \<Rightarrow> jstring list \<Rightarrow> jstring" where
  "join sep [] = []"
| "join sep [s] = s"
| "join sep (s # rest) = s @ sep @ join sep rest"

section \<open>Name extractor (name-extractor.ts)\<close>

text \<open>
  The two lookup tables, in the order of the source. A property lookup such as
  \<open>PHONETIC_ALPHABET[word]\<close> is \<open>map_of\<close>; the one word that JavaScript also finds on
  \<open>Object.prototype\<close>, \<open>constructor\<close>, is outside the model.
\<close>

definition PHONETIC_ALPHABET :: "(jstring \<times> jstring) list" where
  "PHONETIC_ALPHABET = map (\<lambda>(k, v). (js k, js v))
    [(''alpha'', ''A''), (''alfa'', ''A''), (''bravo'', ''B''), (''charlie'', ''C''),
     (''delta'', ''D''), (''echo'', ''E''), (''foxtrot'', ''F''), (''golf'', ''G''),
     (''hotel'', ''H''), (''india'', ''I''), (''juliet'', ''J''), (''juliett'', ''J''),
     (''kilo'', ''K''), (''lima'', ''L''), (''mike'', ''M''), (''november'', ''N''),
     (''oscar'', ''O''), (''papa'', ''P''), (''quebec'', ''Q''), (''romeo'', ''R''),
     (''sierra'', ''S''), (''tango'', ''T''), (''uniform'', ''U''), (''victor'', ''V''),
     (''whiskey'', ''W''), (''whisky'', ''W''), (''xray'', ''X''), (''x-ray'', ''X''),
     (''yankee'', ''Y''), (''zulu'', ''Z''), (''apple'', ''A''), (''adam'', ''A''),
     (''able'', ''A''), (''boy'', ''B''), (''baker'', ''B''), (''bob'', ''B''),
     (''cat'', ''C''), (''carol'', ''C''), (''dog'', ''D''), (''david'', ''D''),
     (''edward'', ''E''), (''easy'', ''E''), (''egg'', ''E''), (''frank'', ''F''),
     (''fox'', ''F''), (''freddy'', ''F''), (''george'', ''G''), (''girl'', ''G''),
     (''henry'', ''H''), (''harry'', ''H''), (''how'', ''H''), (''ida'', ''I''),
     (''item'', ''I''), (''ice'', ''I''), (''john'', ''J''), (''jack'', ''J''),
     (''james'', ''J''), (''king'', ''K''), (''kate'', ''K''), (''kevin'', ''K''),
     (''larry'', ''L''), (''love'', ''L''), (''london'', ''L''), (''mary'', ''M''),
     (''mother'', ''M''), (''michael'', ''M''), (''nancy'', ''N''), (''nora'', ''N''),
     (''nick'', ''N''), (''ocean'', ''O''), (''oliver'', ''O''), (''orange'', ''O''),
     (''peter'', ''P''), (''paul'', ''P''), (''pink'', ''P''), (''queen'', ''Q''),
     (''robert'', ''R''), (''roger'', ''R''), (''red'', ''R''), (''sam'', ''S''),
     (''sugar'', ''S''), (''steve'', ''S''), (''tom'', ''T''), (''tommy'', ''T''),
     (''tiger'', ''T''), (''uncle'', ''U''), (''union'', ''U''), (''victory'', ''V''),
     (''vincent'', ''V''), (''william'', ''W''), (''walter'', ''W''), (''xerox'', ''X''),
     (''yellow'', ''Y''), (''young'', ''Y''), (''yoke'', ''Y''), (''zebra'', ''Z''),
     (''zero'', ''Z''), (''zoo'', ''Z'')]"

definition LETTER_PRONUNCIATIONS :: "(jstring \<times> jstring) list" where
  "LETTER_PRONUNCIATIONS = map (\<lambda>(k, v). (js k, js v))
    [(''ay'', ''A''), (''aye'', ''A''), (''eh'', ''A''), (''bee'', ''B''), (''be'', ''B''),
     (''see'', ''C''), (''sea'', ''C''), (''cee'', ''C''), (''dee'', ''D''), (''de'', ''D''),
     (''ee'', ''E''), (''e'', ''E''), (''eff'', ''F''), (''ef'', ''F''), (''gee'', ''G''),
     (''jee'', ''G''), (''aitch'', ''H''), (''ach'', ''H''), (''haitch'', ''H''),
     (''h'', ''H''), (''eye'', ''I''), (''i'', ''I''), (''jay'', ''J''), (''jey'', ''J''),
     (''kay'', ''K''), (''key'', ''K''), (''k'', ''K''), (''el'', ''L''), (''ell'', ''L''),
     (''em'', ''M''), (''en'', ''N''), (''oh'', ''O''), (''o'', ''O''), (''pee'', ''P''),
     (''pe'', ''P''), (''cue'', ''Q''), (''queue'', ''Q''), (''kew'', ''Q''), (''ar'', ''R''),
     (''are'', ''R''), (''ess'', ''S''), (''es'', ''S''), (''tee'', ''T''), (''te'', ''T''),
     (''you'', ''U''), (''yu'', ''U''), (''vee'', ''V''), (''ve'', ''V''),
     (''double you'', ''W''), (''double u'', ''W''), (''doubleyou'', ''W''), (''ex'', ''X''),
     (''why'', ''Y''), (''wy'', ''Y''), (''wye'', ''Y''), (''zee'', ''Z''), (''zed'', ''Z''),
     (''zet'', ''Z'')]"

datatype Confidence = High | Medium | Low

datatype Method = Spelled | Phonetic | Nato | Combined

record Debug =
  spelledName :: "jstring option"
  phoneticName :: "jstring option"
  natoName :: "jstring option"

record NameExtractionResult =
  name :: jstring
  n_confidence :: Confidence
  n_method :: Method
  originalText :: jstring
  debug :: Debug

text \<open>A value of type \<open>string | null\<close> is truthy when it is a non-empty string.\<close>

definition truthy :: "jstring option \<Rightarrow> bool" where
  "truthy v = (case v of None \<Rightarrow> False | Some s \<Rightarrow> s \<noteq> [])"

text \<open>\<open>[-,.\s]\<close> and \<open>\s*[-,.\s]\s*\<close>\<close>

definition separator_ranges :: "(codeunit \<times> codeunit) list" where
  "separator_ranges =
     [(cu CHR ''-'', cu CHR ''-''), (cu CHR '','', cu CHR '',''), (cu CHR ''.'', cu CHR ''.'')] @
     space_ranges"

definition Separator :: re where
  "Separator = Cls False separator_ranges"

definition Sep :: re where
  "Sep = Seqs [Star Space, Separator, Star Space]"

text \<open>
  \<open>/\b([a-z])\s*[-,.\s]\s*([a-z])\s*[-,.\s]\s*([a-z])(?:\s*[-,.\s]\s*([a-z]))*\b/gi\<close>
\<close>

definition letterPattern :: re where
  "letterPattern =
     Seqs [WordB, Grp 1 Letter, Sep, Grp 2 Letter, Sep, Grp 3 Letter,
           Star (Seq Sep (Grp 4 Letter)), WordB]"

text \<open>
  \<open>buildPronunciationPattern\<close>: the keys sorted by length, longest first (the sort is
  stable), joined with \<open>|\<close> inside \<open>\b((?:...)\s*){2,}\b\<close>, flags \<open>gi\<close>.
\<close>

definition pronunciations :: "jstring list" where
  "pronunciations = sort_key (\<lambda>k. - int (length k)) (map fst LETTER_PRONUNCIATIONS)"

definition pronunciationPattern :: re where
  "pronunciationPattern =
     Seqs [WordB, AtLeast2 (Grp 1 (Seq (Alts (map Str pronunciations)) (Star Space))), WordB]"

text \<open>\<open>/(?:spelled?|that'?s?|it'?s?)\s+([a-z](?:\s*[-,.\s]\s*[a-z])+)/i\<close>\<close>

definition spellingCuePattern :: re where
  "spellingCuePattern =
     Seqs [Alts [Seq (Str (js ''spelle'')) (Opt (Lit (cu CHR ''d''))),
                 Seqs [Str (js ''that''), Opt (Lit 0x27), Opt (Lit (cu CHR ''s''))],
                 Seqs [Str (js ''it''), Opt (Lit 0x27), Opt (Lit (cu CHR ''s''))]],
           Plus Space,
           Grp 1 (Seq Letter (Plus (Seq Sep Letter)))]"

text \<open>\<open>x.match(/[a-z]/gi)\<close> followed by \<open>letters.join('').toUpperCase()\<close>\<close>

definition lettersOf :: "jstring \<Rightarrow> jstring list" where
  "lettersOf s = match_all True Letter s"

text \<open>\<open>convertPronunciationsToLetters\<close>: one step of the loop over the words.\<close>

definition convertWord :: "jstring \<Rightarrow> jstring \<Rightarrow> jstring" where
  "convertWord w acc =
     (if length w = 1 \<and> test True Letter w then acc @ toUpperCase w
      else (case map_of LETTER_PRONUNCIATIONS w of
              Some l \<Rightarrow> acc @ l
            | None \<Rightarrow> (case map_of PHONETIC_ALPHABET w of
                         Some l \<Rightarrow> acc @ l
                       | None \<Rightarrow> acc)))"

definition convertPronunciationsToLetters :: "jstring \<Rightarrow> jstring" where
  "convertPronunciationsToLetters s = fold convertWord (split False (Plus Space) (toLowerCase s)) []"

text \<open>\<open>extractSpelledName\<close>: the three patterns in turn.\<close>

definition spelledByCue :: "jstring \<Rightarrow> jstring option" where
  "spelledByCue s =
     (case exec True spellingCuePattern s of
        None \<Rightarrow> None
      | Some m \<Rightarrow>
         (case group 1 m of
            None \<Rightarrow> None
          | Some g1 \<Rightarrow>
             if length (lettersOf g1) \<ge> 2 then Some (toUpperCase (concat (lettersOf g1)))
             else None))"

definition spelledByPronunciation :: "jstring \<Rightarrow> jstring option" where
  "spelledByPronunciation s =
     (case exec True pronunciationPattern s of
        None \<Rightarrow> spelledByCue s
      | Some m \<Rightarrow>
         (let converted = convertPronunciationsToLetters (matched m) in
          if converted \<noteq> [] \<and> length converted \<ge> 2 then Some converted
          else spelledByCue s))"

definition extractSpelledName :: "jstring \<Rightarrow> jstring option" where
  "extractSpelledName s =
     (case exec True letterPattern s of
        None \<Rightarrow> spelledByPronunciation s
      | Some m \<Rightarrow>
         if lettersOf (matched m) \<noteq> [] \<and> length (lettersOf (matched m)) \<ge> 2
         then Some (toUpperCase (concat (lettersOf (matched m))))
         else spelledByPronunciation s)"

text \<open>
  \<open>extractNatoPhoneticName\<close>: the loop variables \<open>result\<close>, \<open>consecutiveMatches\<close>,
  \<open>maxConsecutive\<close> and \<open>bestResult\<close>.
\<close>

record NatoLoop =
  n_result :: jstring
  consecutiveMatches :: nat
  maxConsecutive :: nat
  bestResult :: jstring

definition natoStep :: "jstring \<Rightarrow> NatoLoop \<Rightarrow> NatoLoop" where
  "natoStep w l =
     (let cleaned = replace_all False (Cls True [(cu CHR ''a'', cu CHR ''z'')]) [] w in
      case map_of PHONETIC_ALPHABET cleaned of
        Some letter \<Rightarrow>
          (let res = n_result l @ letter; n = consecutiveMatches l + 1 in
           if n > maxConsecutive l
           then \<lparr>n_result = res, consecutiveMatches = n, maxConsecutive = n, bestResult = res\<rparr>
           else l\<lparr>n_result := res, consecutiveMatches := n\<rparr>)
      | None \<Rightarrow> l\<lparr>n_result := [], consecutiveMatches := 0\<rparr>)"

definition extractNatoPhoneticName :: "jstring \<Rightarrow> jstring option" where
  "extractNatoPhoneticName s =
     (let l = fold natoStep (split False (Plus Space) (toLowerCase s))
                \<lparr>n_result = [], consecutiveMatches = 0, maxConsecutive = 0, bestResult = []\<rparr>
      in if maxConsecutive l \<ge> 2 then Some (bestResult l) else None)"

text \<open>\<open>/^(my name is|i'm|i am|this is|it's|call me|they call me)\s+/i\<close>\<close>

definition leadingFiller :: re where
  "leadingFiller =
     Seqs [Bol,
           Grp 1 (Alts [Str (js ''my name is''), Str (js ''i'm''), Str (js ''i am''),
                        Str (js ''this is''), Str (js ''it's''), Str (js ''call me''),
                        Str (js ''they call me'')]),
           Plus Space]"

text \<open>\<open>/\s+(here|speaking|and|that's|spelled).*$/i\<close>\<close>

definition trailingFiller :: re where
  "trailingFiller =
     Seqs [Plus Space,
           Grp 1 (Alts [Str (js ''here''), Str (js ''speaking''), Str (js ''and''),
                        Str (js ''that's''), Str (js ''spelled'')]),
           Star AnyChar, Eol]"

text \<open>\<open>/^([a-z]+(?:\s+[a-z]+)?)/i\<close>\<close>

definition namePattern :: re where
  "namePattern = Seq Bol (Grp 1 (Seq (Plus Letter) (Opt (Seq (Plus Space) (Plus Letter)))))"

text \<open>\<open>s.split(',')[0]\<close>\<close>

definition beforeComma :: "jstring \<Rightarrow> jstring" where
  "beforeComma s = takeWhile (\<lambda>x. x \<noteq> cu CHR '','') s"

definition extractPhoneticName :: "jstring \<Rightarrow> jstring option" where
  "extractPhoneticName s =
     (let cleaned0 = trim (replace_first True trailingFiller [] (replace_first True leadingFiller [] s));
          cleaned = (if cu CHR '','' \<in> set cleaned0 then trim (beforeComma cleaned0) else cleaned0)
      in case exec True namePattern cleaned of
           Some m \<Rightarrow> group 1 m
         | None \<Rightarrow> if cleaned = [] then None else Some cleaned)"

text \<open>
  \<open>cleanTranscript\<close>, with \<open>/\s+(here|speaking)$/i\<close> and \<open>/[.,!?]+$/g\<close>.
\<close>

definition cleanTranscript :: "jstring \<Rightarrow> jstring" where
  "cleanTranscript s =
     trim (replace_all False
             (Seq (Plus (Cls False [(cu CHR ''.'', cu CHR ''.''), (cu CHR '','', cu CHR '',''),
                                    (cu CHR ''!'', cu CHR ''!''), (cu CHR ''?'', cu CHR ''?'')])) Eol) []
          (replace_first True
             (Seqs [Plus Space, Grp 1 (Alts [Str (js ''here''), Str (js ''speaking'')]), Eol]) []
          (replace_first True leadingFiller [] s)))"

text \<open>\<open>word.charAt(0).toUpperCase() + word.slice(1)\<close>\<close>

definition capitalizeWord :: "jstring \<Rightarrow> jstring" where
  "capitalizeWord w = (case w of [] \<Rightarrow> [] | x # xs \<Rightarrow> upper_char x # xs)"

definition capitalizeFirst :: "jstring \<Rightarrow> jstring" where
  "capitalizeFirst s = join (js '' '') (map capitalizeWord (split False (Plus Space) (toLowerCase s)))"

definition extractName :: "jstring \<Rightarrow> NameExtractionResult" where
  "extractName input =
     (let original = trim input;
          normalized = toLowerCase original;
          spelled = extractSpelledName normalized;
          nato = extractNatoPhoneticName normalized;
          phonetic = extractPhoneticName normalized;
          dbg = \<lparr>spelledName = (if truthy spelled then spelled else None),
                 phoneticName = (if truthy phonetic then phonetic else None),
                 natoName = (if truthy nato then nato else None)\<rparr>
      in if truthy spelled \<and> length (the spelled) \<ge> 2 then
           \<lparr>name = capitalizeFirst (the spelled), n_confidence = High, n_method = Spelled,
            originalText = original, debug = dbg\<rparr>
         else if truthy nato \<and> length (the nato) \<ge> 2 then
           \<lparr>name = capitalizeFirst (the nato), n_confidence = High, n_method = Nato,
            originalText = original, debug = dbg\<rparr>
         else if truthy phonetic then
           \<lparr>name = capitalizeFirst (the phonetic), n_confidence = Medium, n_method = Phonetic,
            originalText = original, debug = dbg\<rparr>
         else
           \<lparr>name = capitalizeFirst (cleanTranscript original), n_confidence = Low,
            n_method = Phonetic, originalText = original, debug = dbg\<rparr>)"

text \<open>
  \<open>isValidName\<close>, with \<open>/[a-zA-Z]/\<close> and \<open>/^[a-zA-Z\s'-]+$/\<close>.
\<close>

definition nameChars :: "(codeunit \<times> codeunit) list" where
  "nameChars = [(cu CHR ''a'', cu CHR ''z''), (cu CHR ''A'', cu CHR ''Z'')] @ space_ranges @
               [(0x27, 0x27), (cu CHR ''-'', cu CHR ''-'')]"

definition isValidName :: "jstring \<Rightarrow> bool" where
  "isValidName s =
     (if s = [] \<or> length s < 1 \<or> length s > 50 then False
      else if \<not> test False (Cls False [(cu CHR ''a'', cu CHR ''z''), (cu CHR ''A'', cu CHR ''Z'')]) s
      then False
      else if \<not> test False (Seqs [Bol, Plus (Cls False nameChars), Eol]) s then False
      else True)"

text \<open>
  The statement of the specification to compare with: length 1 to 50, at least one
  letter, and only letters, spaces, apostrophes and hyphens.
\<close>

definition is_letter :: "codeunit \<Rightarrow> bool" where
  "is_letter x =
     ((cu CHR ''a'' \<le> x \<and> x \<le> cu CHR ''z'') \<or> (cu CHR ''A'' \<le> x \<and> x \<le> cu CHR ''Z''))"

definition validNameSpec :: "jstring \<Rightarrow> bool" where
  "validNameSpec s =
     (1 \<le> length s \<and> length s \<le> 50 \<and> list_ex is_letter s \<and>
      list_all (\<lambda>x. is_letter x \<or> x = cu CHR '' '' \<or> x = 0x27 \<or> x = cu CHR ''-'') s)"


definition is_sep_char :: "codeunit \<Rightarrow> bool" where
  "is_sep_char u = (u = cu CHR ''-'' \<or> u = cu CHR '','' \<or> u = cu CHR ''.'' \<or> is_space u)"

definition separator :: "jstring \<Rightarrow> bool" where
  "separator s =
     (s \<noteq> [] \<and> list_all is_sep_char s \<and> length (filter (\<lambda>u. \<not> is_space u) s) \<le> 1)"



text \<open>
  \<open>no_match_before p s k\<close>: the pattern \<open>p\<close> matches at none of the first \<open>k\<close> positions of
  \<open>s\<close>, so a match at position \<open>k\<close> is the first one.
\<close>

definition no_match_before :: "re \<Rightarrow> jstring \<Rightarrow> nat \<Rightarrow> bool" where
  "no_match_before p s k =
     list_all (\<lambda>i. matches True p (rev (take i s), drop i s, []) = []) [0..<k]"


section \<open>Example inputs\<close>

text \<open>Two diarization spans whose labels sort as \<open>A < SPEAKER_00\<close>, and three segments.\<close>

definition ex_spans :: "PyannoteSegment list" where
  "ex_spans = [\<lparr>speaker = ''A'', pstart = 0, pend = 1\<rparr>,
               \<lparr>speaker = ''SPEAKER_00'', pstart = 1, pend = 2\<rparr>]"

definition ex_seg :: "int \<Rightarrow> string \<Rightarrow> real \<Rightarrow> real \<Rightarrow> real \<Rightarrow> TranscriptSegment" where
  "ex_seg tag text conf s e =
     \<lparr>meetingId = ''m1'', speakerTag = tag, speakerName = None, transcript = text,
      confidence = conf, startTime = s, endTime = e, isFinal = True\<rparr>"

definition ex_late_segment :: TranscriptSegment where
  "ex_late_segment = ex_seg 1 ''late'' 1 4 6"

definition ex_segments :: "TranscriptSegment list" where
  "ex_segments = [ex_seg 1 ''Hello'' (9/10) 0 (1/2), ex_seg 1 ''there'' (4/10) (1/2) (9/10),
                  ex_seg 1 ''World'' (8/10) 1 2]"

definition ex_dseg :: "int \<Rightarrow> string \<Rightarrow> real option \<Rightarrow> real \<Rightarrow> real \<Rightarrow> DiarizedSegment" where
  "ex_dseg tag text conf s e =
     \<lparr>d_speakerTag = tag, d_speaker = ''SPEAKER_01'', d_transcript = text,
      d_startTime = s, d_endTime = e, d_confidence = conf\<rparr>"

text \<open>
  A job whose diarization succeeds on \<open>ex_spans\<close>, run on a store that holds
  \<open>ex_segments\<close> and whose third write throws.
\<close>

definition ex_env :: Env where
  "ex_env = \<lparr>diarizationAvailable = True, isWav = True, convertToWav = None,
             callPyannoteDiarization = Inr ex_spans, speechAvailable = True,
             transcribeFile = Inr [], getSpeakerMappings = Map.empty\<rparr>"

definition ex_sys :: Sys where
  "ex_sys = \<lparr>store = \<lparr>rows = ex_segments, failAfter = Some 2\<rparr>, status = ''processing''\<rparr>"

text \<open>Word lists of a Google payload: tags 2, 1 and start times 0, 1/2.\<close>

definition ex_word :: "int \<Rightarrow> int \<Rightarrow> int \<Rightarrow> IWordInfo" where
  "ex_word tag startNanos endNanos =
     \<lparr>wi_word = Some ''w'', wi_speakerTag = Some tag,
      wi_startTime = Some \<lparr>seconds = Some 0, nanos = Some startNanos\<rparr>,
      wi_endTime = Some \<lparr>seconds = Some 0, nanos = Some endNanos\<rparr>\<rparr>"

definition ex_data :: "IWordInfo list \<Rightarrow> StreamData" where
  "ex_data ws =
     \<lparr>results = Some [\<lparr>alternatives = Some [\<lparr>alt_transcript = Some ''w w'',
                          alt_confidence = Some (9/10), alt_words = Some ws\<rparr>],
                        r_isFinal = Some True\<rparr>]\<rparr>"

definition ex_dg_word :: "int \<Rightarrow> DgWordInfo" where
  "ex_dg_word sp =
     \<lparr>dg_word = Some ''w'', dg_punctuated_word = None, dg_speaker = Some sp,
      dg_start = Some 1, dg_end = Some 2, dg_confidence = Some 1\<rparr>"

definition ex_dg_data :: "DgWordInfo list \<Rightarrow> DgData" where
  "ex_dg_data ws =
     \<lparr>channel = Some \<lparr>dg_alternatives = Some [\<lparr>dga_transcript = Some (js ''w w''),
                          dga_confidence = Some 1, dga_words = Some ws\<rparr>]\<rparr>,
      is_final = Some True\<rparr>"

text \<open>A service with one streaming session whose stream was opened at clock 0.\<close>

definition ex_session :: StreamSession where
  "ex_session = \<lparr>recognizeStream = Some 0, isActive = True, restartCount = 0,
                 audioInputStreamTimestamp = 0\<rparr>"

definition ex_service :: Service where
  "ex_service =
     \<lparr>sessions = [''s1'' \<mapsto> ex_session],
      streams = [\<lparr>destroyed = False, writableEnded = False, written = [[1, 2]],
                  writeThrows = None, endThrows = False\<rparr>],
      pendingRestarts = [], emitted = []\<rparr>"


section \<open>Properties of the batch diarization reconciler\<close>

subsection \<open>Speaker mapping and midpoint assignment\<close>

lemma set_uniq: "set (uniq xs) = set xs"
  by (induction xs) auto

lemma distinct_uniq: "distinct (uniq xs)"
  by (induction xs) (auto simp: set_uniq)

lemma uniqueSpeakers_props:
  "sorted (uniqueSpeakers spans) \<and> distinct (uniqueSpeakers spans) \<and>
   set (uniqueSpeakers spans) = speaker ` set spans"
  by (simp add: uniqueSpeakers_def distinct_uniq set_uniq)

lemma fold_set_other:
  "k \<notin> set ls \<Longrightarrow>
   fold (\<lambda>(index, speaker) m. m(speaker \<mapsto> int index + 1)) (enumerate n ls) m k = m k"
  by (induction ls arbitrary: n m) auto

lemma fold_set_nth:
  "distinct ls \<Longrightarrow> i < length ls \<Longrightarrow>
   fold (\<lambda>(index, speaker) m. m(speaker \<mapsto> int index + 1)) (enumerate n ls) m (ls ! i)
     = Some (int (n + i) + 1)"
proof (induction ls arbitrary: n m i)
  case Nil
  then show ?case by simp
next
  case (Cons x xs)
  show ?case
  proof (cases i)
    case 0
    have "fold (\<lambda>(index, speaker) m. m(speaker \<mapsto> int index + 1)) (enumerate (Suc n) xs)
            (m(x \<mapsto> int n + 1)) x = (m(x \<mapsto> int n + 1)) x"
      by (rule fold_set_other) (use Cons.prems in simp)
    moreover have "fold (\<lambda>(index, speaker) m. m(speaker \<mapsto> int index + 1)) (enumerate n (x # xs)) m
       = fold (\<lambda>(index, speaker) m. m(speaker \<mapsto> int index + 1)) (enumerate (Suc n) xs)
            (m(x \<mapsto> int n + 1))"
      by simp
    moreover have "(m(x \<mapsto> int n + 1)) x = Some (int (n + 0) + 1)" by simp
    ultimately show ?thesis using 0 by (simp only: nth_Cons_0)
  next
    case (Suc j)
    then show ?thesis using Cons.prems Cons.IH [of j "Suc n"] by simp
  qed
qed

lemma speakerMap_nth:
  "i < length (uniqueSpeakers spans) \<Longrightarrow>
   speakerMap spans (uniqueSpeakers spans ! i) = Some (int i + 1)"
  using fold_set_nth [of "uniqueSpeakers spans" i 0 Map.empty] uniqueSpeakers_props [of spans]
  by (simp add: speakerMap_def)

lemma speakerMap_none:
  "l \<notin> speaker ` set spans \<Longrightarrow> speakerMap spans l = None"
  using fold_set_other [of l "uniqueSpeakers spans" 0 Map.empty] uniqueSpeakers_props [of spans]
  by (simp add: speakerMap_def)

lemma speakerMap_some:
  assumes "l \<in> speaker ` set spans"
  shows "\<exists>i<length (uniqueSpeakers spans). uniqueSpeakers spans ! i = l \<and>
           speakerMap spans l = Some (int i + 1)"
proof -
  from assms have "l \<in> set (uniqueSpeakers spans)" using uniqueSpeakers_props by simp
  then obtain i where "i < length (uniqueSpeakers spans)" "uniqueSpeakers spans ! i = l"
    by (auto simp: in_set_conv_nth)
  then show ?thesis using speakerMap_nth [of i spans] by auto
qed

lemma assignedSpeaker_find:
  "assignedSpeaker spans mid =
     (case find (\<lambda>ps. covers ps mid) spans of
        None \<Rightarrow> ''SPEAKER_00'' | Some ps \<Rightarrow> speaker ps)"
  by (induction spans) auto



text \<open>
  Claim C2, as amended. The distinct span labels, sorted lexicographically, get the tags
  sorted index + 1, and no other label has a tag. A segment gets the tag of the first span,
  in the given span order, whose closed interval contains the segment's midpoint. A
  segment whose midpoint lies in no span gets the tag of the label \<open>SPEAKER_00\<close> when that
  label occurs among the spans, and tag 1 otherwise; nothing else of the segment changes.
\<close>

theorem assign_by_midpoint:
  "sorted (uniqueSpeakers spans) \<and> distinct (uniqueSpeakers spans) \<and>
   set (uniqueSpeakers spans) = speaker ` set spans \<and>
   (\<forall>i<length (uniqueSpeakers spans).
      speakerMap spans (uniqueSpeakers spans ! i) = Some (int i + 1)) \<and>
   (\<forall>l. l \<notin> speaker ` set spans \<longrightarrow> speakerMap spans l = None) \<and>
   assignSpeaker spans seg = seg\<lparr>speakerTag :=
     (case find (\<lambda>ps. covers ps ((startTime seg + endTime seg) / 2)) spans of
        Some ps \<Rightarrow> (case speakerMap spans (speaker ps) of Some t \<Rightarrow> t | None \<Rightarrow> 1)
      | None \<Rightarrow> (case speakerMap spans ''SPEAKER_00'' of Some t \<Rightarrow> t | None \<Rightarrow> 1))\<rparr>"
proof -
  let ?mid = "(startTime seg + endTime seg) / 2"
  have pos: "t \<noteq> 0" if a: "speakerMap spans l = Some t" for l t
  proof -
    from a have "l \<in> speaker ` set spans" using speakerMap_none [of l spans] by auto
    from speakerMap_some [OF this] a show "t \<noteq> 0" by auto
  qed
  have assign: "assignSpeaker spans seg = seg\<lparr>speakerTag :=
     (case find (\<lambda>ps. covers ps ?mid) spans of
        Some ps \<Rightarrow> (case speakerMap spans (speaker ps) of Some t \<Rightarrow> t | None \<Rightarrow> 1)
      | None \<Rightarrow> (case speakerMap spans ''SPEAKER_00'' of Some t \<Rightarrow> t | None \<Rightarrow> 1))\<rparr>"
  proof (cases "find (\<lambda>ps. covers ps ?mid) spans")
    case None
    then show ?thesis
      using pos [of "''SPEAKER_00''"]
      by (auto simp: assignSpeaker_def Let_def assignedSpeaker_find split: option.splits)
  next
    case (Some ps)
    then show ?thesis
      using pos [of "speaker ps"]
      by (auto simp: assignSpeaker_def Let_def assignedSpeaker_find split: option.splits)
  qed
  show ?thesis
    using uniqueSpeakers_props [of spans] speakerMap_nth [of _ spans] assign
      speakerMap_none [of _ spans]
    by (intro conjI) auto
qed

lemma ex_uniqueSpeakers: "uniqueSpeakers ex_spans = [''A'', ''SPEAKER_00'']"
  by (simp add: uniqueSpeakers_def ex_spans_def)

lemma ex_speakerMap:
  "speakerMap ex_spans ''A'' = Some 1" "speakerMap ex_spans ''SPEAKER_00'' = Some 2"
  by (simp_all add: speakerMap_def ex_uniqueSpeakers)

lemma ex_assignedSpeaker:
  "assignedSpeaker ex_spans (1/4) = ''A''" "assignedSpeaker ex_spans (7/10) = ''A''"
  "assignedSpeaker ex_spans (3/2) = ''SPEAKER_00''" "assignedSpeaker ex_spans 5 = ''SPEAKER_00''"
  by (simp_all add: ex_spans_def covers_def)

lemma ex_segmentsWithSpeakers:
  "segmentsWithSpeakers ex_spans ex_segments =
     [ex_seg 1 ''Hello'' (9/10) 0 (1/2), ex_seg 1 ''there'' (4/10) (1/2) (9/10),
      ex_seg 2 ''World'' (8/10) 1 2]"
  by (simp add: segmentsWithSpeakers_def assignSpeaker_def Let_def ex_segments_def ex_seg_def
        ex_assignedSpeaker ex_speakerMap)

lemma ex_reconcile:
  "reconcile ex_spans ex_segments =
     [\<lparr>m_speakerTag = 1, m_transcript = ''Hello there'', m_startTime = 0, m_endTime = 9/10,
       m_confidence = 4/10\<rparr>,
      \<lparr>m_speakerTag = 2, m_transcript = ''World'', m_startTime = 1, m_endTime = 2,
       m_confidence = 8/10\<rparr>]"
  by (simp add: reconcile_def ex_segmentsWithSpeakers mergeAssigned_def)
     (simp add: ex_seg_def toMerged_def)

theorem assign_by_midpoint_witness:
  "uniqueSpeakers ex_spans = [''A'', ''SPEAKER_00''] \<and>
   speakerMap ex_spans (uniqueSpeakers ex_spans ! 0) = Some 1 \<and>
   speakerMap ex_spans (uniqueSpeakers ex_spans ! 1) = Some 2 \<and>
   speakerMap ex_spans ''B'' = None \<and>
   find (\<lambda>ps. covers ps ((startTime (ex_seg 7 ''World'' 1 1 2) + endTime (ex_seg 7 ''World'' 1 1 2)) / 2))
     ex_spans = Some (ex_spans ! 1) \<and>
   assignSpeaker ex_spans (ex_seg 7 ''World'' 1 1 2) = ex_seg 2 ''World'' 1 1 2"
proof -
  note t = assign_by_midpoint [of ex_spans "ex_seg 7 ''World'' 1 1 2"]
  have f: "find (\<lambda>ps. covers ps ((startTime (ex_seg 7 ''World'' 1 1 2) + endTime (ex_seg 7 ''World'' 1 1 2)) / 2))
     ex_spans = Some (ex_spans ! 1)"
    by (simp add: ex_spans_def ex_seg_def covers_def)
  from t have a: "\<forall>i<length (uniqueSpeakers ex_spans).
      speakerMap ex_spans (uniqueSpeakers ex_spans ! i) = Some (int i + 1)"
    by blast
  from a have "0 < length (uniqueSpeakers ex_spans) \<longrightarrow>
      speakerMap ex_spans (uniqueSpeakers ex_spans ! 0) = Some (int 0 + 1)"
    by blast
  then have m0: "speakerMap ex_spans (uniqueSpeakers ex_spans ! 0) = Some 1"
    by (simp add: ex_uniqueSpeakers)
  from a have "1 < length (uniqueSpeakers ex_spans) \<longrightarrow>
      speakerMap ex_spans (uniqueSpeakers ex_spans ! 1) = Some (int 1 + 1)"
    by blast
  then have m1: "speakerMap ex_spans (uniqueSpeakers ex_spans ! 1) = Some 2"
    by (simp add: ex_uniqueSpeakers)
  from t have "''B'' \<notin> speaker ` set ex_spans \<longrightarrow> speakerMap ex_spans ''B'' = None"
    by blast
  then have b: "speakerMap ex_spans ''B'' = None"
    by (simp add: ex_spans_def)
  have sp: "speaker (ex_spans ! 1) = uniqueSpeakers ex_spans ! 1"
    by (simp add: ex_uniqueSpeakers) (simp add: ex_spans_def)
  from t have "assignSpeaker ex_spans (ex_seg 7 ''World'' 1 1 2) =
      (ex_seg 7 ''World'' 1 1 2)\<lparr>speakerTag :=
         (case speakerMap ex_spans (speaker (ex_spans ! 1)) of Some t \<Rightarrow> t | None \<Rightarrow> 1)\<rparr>"
    unfolding f by simp
  then have "assignSpeaker ex_spans (ex_seg 7 ''World'' 1 1 2) = ex_seg 2 ''World'' 1 1 2"
    unfolding sp m1 by (simp add: ex_seg_def)
  with ex_uniqueSpeakers m0 m1 b f show ?thesis by simp
qed

theorem unmatched_segment_counterexample:
  "length ex_spans = 2 \<and>
   (startTime ex_late_segment + endTime ex_late_segment) / 2 = 5 \<and>
   \<not> covers (ex_spans ! 0) 5 \<and> \<not> covers (ex_spans ! 1) 5 \<and>
   speakerTag (assignSpeaker ex_spans ex_late_segment) = 2"
proof -
  have "speakerTag (assignSpeaker ex_spans ex_late_segment) = 2"
    by (simp add: assignSpeaker_def Let_def ex_late_segment_def ex_seg_def
          ex_assignedSpeaker ex_speakerMap)
  then show ?thesis
    by (simp add: ex_spans_def covers_def ex_late_segment_def ex_seg_def)
qed

subsection \<open>Merging\<close>

text \<open>
  A run of segments with the tag of \<open>current\<close>, at any place of the list: the
  post-diarization loop appends their texts, takes the end time of the last one and the
  minimum of the confidences.
\<close>

lemma mergeLoop_run:
  assumes "\<forall>s \<in> set run. speakerTag s = m_speakerTag current"
  shows "mergeLoop mergedSegments (Some current) (run @ rest) =
           mergeLoop mergedSegments
             (Some (current\<lparr>m_transcript := foldl (\<lambda>t s. t @ '' '' @ transcript s)
                                              (m_transcript current) run,
                            m_endTime := last (m_endTime current # map endTime run),
                            m_confidence := fold (\<lambda>s c. min c (confidence s)) run
                                              (m_confidence current)\<rparr>))
             rest"
  using assms
proof (induction run arbitrary: current)
  case Nil
  then show ?case by simp
next
  case (Cons s run)
  let ?next = "current\<lparr>m_transcript := m_transcript current @ '' '' @ transcript s,
                        m_endTime := endTime s,
                        m_confidence := min (m_confidence current) (confidence s)\<rparr>"
  from Cons.prems have "\<forall>t \<in> set run. speakerTag t = m_speakerTag ?next" by simp
  from Cons.IH [OF this] Cons.prems show ?case by simp
qed

text \<open>
  The loop of the batch transcription path on such a run: the same text and end time,
  but the confidence of \<open>current\<close> stays as it is.
\<close>

lemma mergeConsecutiveLoop_run:
  assumes "\<forall>s \<in> set run. d_speakerTag s = d_speakerTag current"
  shows "mergeConsecutiveLoop merged current (run @ rest) =
           mergeConsecutiveLoop merged
             (current\<lparr>d_transcript := foldl (\<lambda>t s. t @ '' '' @ d_transcript s)
                                        (d_transcript current) run,
                      d_endTime := last (d_endTime current # map d_endTime run)\<rparr>)
             rest"
  using assms
proof (induction run arbitrary: current)
  case Nil
  then show ?case by simp
next
  case (Cons s run)
  let ?next = "current\<lparr>d_transcript := d_transcript current @ '' '' @ d_transcript s,
                        d_endTime := d_endTime s\<rparr>"
  from Cons.prems have "\<forall>t \<in> set run. d_speakerTag t = d_speakerTag ?next" by simp
  from Cons.IH [OF this] Cons.prems show ?case by simp
qed

text \<open>
  Claim C3. Two segments of one speaker with the confidences 0.9 and 0.4, as
  \<open>transcribeFile\<close> returns them for a result without word timings: the merge of the
  batch transcription path joins the texts with one space and takes the later end time,
  but keeps the confidence 0.9, and \<open>processAudioFile\<close> persists that; the claimed
  confidence is the minimum, 0.4, which the post-diarization merge computes on the same
  two segments.
\<close>

theorem batch_merge_keeps_first_confidence:
  "mergeConsecutiveSpeakerSegments
       [ex_dseg 1 ''Hello'' (Some (9/10)) 0 0, ex_dseg 1 ''there'' (Some (4/10)) 0 0] =
     [ex_dseg 1 ''Hello there'' (Some (9/10)) 0 0] \<and>
   processAudioFile ''m1''
       (ex_env\<lparr>transcribeFile :=
          Inr [ex_dseg 1 ''Hello'' (Some (9/10)) 0 0, ex_dseg 1 ''there'' (Some (4/10)) 0 0]\<rparr>)
       \<lparr>store = \<lparr>rows = [], failAfter = None\<rparr>, status = ''processing''\<rparr> =
     \<lparr>store = \<lparr>rows = [ex_seg 1 ''Hello there'' (9/10) 0 0], failAfter = None\<rparr>,
      status = ''completed''\<rparr> \<and>
   mergeAssigned [ex_seg 1 ''Hello'' (9/10) 0 0, ex_seg 1 ''there'' (4/10) 0 0] =
     [\<lparr>m_speakerTag = 1, m_transcript = ''Hello there'', m_startTime = 0, m_endTime = 0,
       m_confidence = 4/10\<rparr>] \<and>
   min (9/10) (4/10) = (4/10 :: real)"
  by (simp add: ex_dseg_def ex_seg_def ex_env_def processAudioFile_def transcribeBatch_def
        repo_find_def updateTranscriptSegments_def Let_def repo_delete_def repo_save_def
        repo_write_def newBatchSegment_def mergeAssigned_def toMerged_def)

subsection \<open>Order and adjacent tags of the merged list\<close>

lemma mergeLoop_tags:
  "distinct_adj (map m_speakerTag (merged @ [c])) \<Longrightarrow>
   distinct_adj (map m_speakerTag (mergeLoop merged (Some c) segs))"
proof (induction segs arbitrary: merged c)
  case Nil
  then show ?case by simp
next
  case (Cons s segs)
  show ?case
  proof (cases "speakerTag s = m_speakerTag c")
    case True
    then show ?thesis using Cons.prems by (simp add: Cons.IH)
  next
    case False
    have "distinct_adj (map m_speakerTag ((merged @ [c]) @ [toMerged s]))"
      using Cons.prems False by (simp add: distinct_adj_append_iff toMerged_def)
    then show ?thesis using False by (simp add: Cons.IH)
  qed
qed

lemma mergeLoop_starts:
  "subseq (map m_startTime (mergeLoop merged (Some c) segs))
          (map m_startTime (merged @ [c]) @ map startTime segs)"
proof (induction segs arbitrary: merged c)
  case Nil
  then show ?case by simp
next
  case (Cons s segs)
  show ?case
  proof (cases "speakerTag s = m_speakerTag c")
    case True
    let ?c = "c\<lparr>m_transcript := m_transcript c @ '' '' @ transcript s,
                 m_endTime := endTime s,
                 m_confidence := min (m_confidence c) (confidence s)\<rparr>"
    have "subseq (map m_startTime (mergeLoop merged (Some ?c) segs))
            (map m_startTime (merged @ [?c]) @ map startTime segs)"
      by (rule Cons.IH)
    also have "subseq (map m_startTime (merged @ [?c]) @ map startTime segs)
            (map m_startTime (merged @ [c]) @ map startTime (s # segs))"
      by (auto intro!: list_emb_append_mono)
    finally show ?thesis using True by simp
  next
    case False
    have "subseq (map m_startTime (mergeLoop (merged @ [c]) (Some (toMerged s)) segs))
            (map m_startTime ((merged @ [c]) @ [toMerged s]) @ map startTime segs)"
      by (rule Cons.IH)
    then show ?thesis using False by (simp add: toMerged_def)
  qed
qed

lemma subseq_sorted:
  "subseq xs ys \<Longrightarrow> sorted ys \<Longrightarrow> sorted (xs :: real list)"
proof (induction rule: list_emb.induct)
  case (list_emb_Nil ys)
  then show ?case by simp
next
  case (list_emb_Cons xs ys y)
  then show ?case by simp
next
  case (list_emb_Cons2 x y xs ys)
  then have "set xs \<subseteq> set ys" by (auto dest: list_emb_set)
  with list_emb_Cons2 show ?case by auto
qed

lemma mergeAssigned_props:
  "distinct_adj (map m_speakerTag (mergeAssigned segs)) \<and>
   subseq (map m_startTime (mergeAssigned segs)) (map startTime segs)"
proof (cases segs)
  case Nil
  then show ?thesis by (simp add: mergeAssigned_def)
next
  case (Cons s rest)
  have "distinct_adj (map m_speakerTag (mergeLoop [] (Some (toMerged s)) rest))"
    by (rule mergeLoop_tags) simp
  moreover have "subseq (map m_startTime (mergeLoop [] (Some (toMerged s)) rest))
          (map m_startTime ([] @ [toMerged s]) @ map startTime rest)"
    by (rule mergeLoop_starts)
  ultimately show ?thesis using Cons by (simp add: mergeAssigned_def toMerged_def)
qed

lemma startTime_assignSpeaker: "startTime (assignSpeaker spans seg) = startTime seg"
  by (simp add: assignSpeaker_def Let_def)


text \<open>
  Claim C5. For every list of spans and every segment list ordered by start time, the list
  that the reconciliation merge produces has no two adjacent segments with the same
  speaker tag, and it keeps the order of the input: its start times are a subsequence of
  the input's start times, and so again ordered.
\<close>

theorem reconcile_order_and_tags:
  "sorted (map startTime segments) \<Longrightarrow>
   distinct_adj (map m_speakerTag (reconcile spans segments)) \<and>
   sorted (map m_startTime (reconcile spans segments)) \<and>
   subseq (map m_startTime (reconcile spans segments)) (map startTime segments)"
proof -
  assume s: "sorted (map startTime segments)"
  have eq: "map startTime (segmentsWithSpeakers spans segments) = map startTime segments"
    by (simp add: segmentsWithSpeakers_def startTime_assignSpeaker)
  have a: "distinct_adj (map m_speakerTag (reconcile spans segments))"
    using mergeAssigned_props by (simp add: reconcile_def)
  have b: "subseq (map m_startTime (reconcile spans segments)) (map startTime segments)"
    using mergeAssigned_props [of "segmentsWithSpeakers spans segments"] eq
    by (simp add: reconcile_def)
  from b s have "sorted (map m_startTime (reconcile spans segments))"
    by (rule subseq_sorted)
  with a b show ?thesis by simp
qed


theorem reconcile_order_and_tags_witness:
  "sorted (map startTime ex_segments) \<and>
   map m_speakerTag (reconcile ex_spans ex_segments) = [1, 2] \<and>
   map m_startTime (reconcile ex_spans ex_segments) = [0, 1] \<and>
   distinct_adj (map m_speakerTag (reconcile ex_spans ex_segments)) \<and>
   sorted (map m_startTime (reconcile ex_spans ex_segments)) \<and>
   subseq (map m_startTime (reconcile ex_spans ex_segments)) (map startTime ex_segments)"
proof -
  have s: "sorted (map startTime ex_segments)"
    by (simp add: ex_segments_def ex_seg_def)
  from reconcile_order_and_tags [OF s, of ex_spans] s show ?thesis
    by (simp add: ex_reconcile)
qed

subsection \<open>Replacing the persisted segments\<close>

lemma saveLoop_None:
  "saveLoop segs \<lparr>rows = R, failAfter = None\<rparr> = (None, \<lparr>rows = R @ segs, failAfter = None\<rparr>)"
  by (induction segs arbitrary: R) (auto simp: repo_save_def repo_write_def)

lemma saveLoop_Some:
  "saveLoop segs \<lparr>rows = R, failAfter = Some k\<rparr> =
     (if k < length segs then (Some PersistenceError, \<lparr>rows = R @ take k segs, failAfter = Some 0\<rparr>)
      else (None, \<lparr>rows = R @ segs, failAfter = Some (k - length segs)\<rparr>))"
proof (induction segs arbitrary: R k)
  case Nil
  then show ?case by simp
next
  case (Cons s segs)
  show ?case
  proof (cases k)
    case 0
    then show ?thesis by (simp add: repo_save_def repo_write_def)
  next
    case (Suc j)
    then show ?thesis using Cons.IH [of "R @ [s]" j]
      by (simp add: repo_save_def repo_write_def)
  qed
qed


text \<open>
  Claim C4, as amended. The reconciler deletes the meeting's persisted segments and then
  inserts the merged list one segment at a time, with no transaction. When the delete
  throws, the persisted segments are unchanged; when the insert of merged segment number
  k + 1 throws, the meeting's persisted segments are exactly the first k merged segments;
  when no write throws they are the complete merged list. In each failing case the
  reconciler raises the error to its caller. Segments of other meetings are untouched.
\<close>

theorem replace_segments_stepwise:
  "assignSpeakersAndMergeSegments mid segments spans st =
     (case failAfter st of
        None \<Rightarrow>
          (None, \<lparr>rows = filter (\<lambda>r. meetingId r \<noteq> mid) (rows st)
                          @ map (newSegment mid) (reconcile spans segments),
                  failAfter = None\<rparr>)
      | Some 0 \<Rightarrow> (Some PersistenceError, st)
      | Some (Suc k) \<Rightarrow>
          if k < length (reconcile spans segments) then
            (Some PersistenceError,
             \<lparr>rows = filter (\<lambda>r. meetingId r \<noteq> mid) (rows st)
                      @ take k (map (newSegment mid) (reconcile spans segments)),
              failAfter = Some 0\<rparr>)
          else
            (None, \<lparr>rows = filter (\<lambda>r. meetingId r \<noteq> mid) (rows st)
                            @ map (newSegment mid) (reconcile spans segments),
                    failAfter = Some (k - length (reconcile spans segments))\<rparr>))"
proof -
  obtain R f where st: "st = \<lparr>rows = R, failAfter = f\<rparr>"
    by (cases st) simp
  show ?thesis
  proof (cases f)
    case None
    with st show ?thesis
      by (simp add: assignSpeakersAndMergeSegments_def repo_delete_def repo_write_def saveLoop_None)
  next
    case (Some b)
    show ?thesis
    proof (cases b)
      case 0
      with Some st show ?thesis
        by (simp add: assignSpeakersAndMergeSegments_def repo_delete_def repo_write_def)
    next
      case (Suc k)
      with Some st show ?thesis
        by (simp add: assignSpeakersAndMergeSegments_def repo_delete_def repo_write_def saveLoop_Some Let_def)
    qed
  qed
qed

text \<open>
  The status after a persistence failure on the two paths of \<open>processAudioFile\<close>: an
  error of the reconciler is caught together with the errors of the diarization call and
  the job completes; an error of \<open>updateTranscriptSegments\<close> on the batch transcription
  path reaches the outer \<open>catch\<close>.
\<close>

lemma reconcile_path_status:
  assumes "repo_find mid (store sys) \<noteq> []" "diarizationAvailable env" "isWav env"
    and "callPyannoteDiarization env = Inr spans"
  shows "processAudioFile mid env sys =
    \<lparr>store = snd (assignSpeakersAndMergeSegments mid (repo_find mid (store sys)) spans (store sys)),
     status = ''completed''\<rparr>"
  using assms by (simp add: processAudioFile_def Let_def diarizeExisting_def)

lemma batch_path_status:
  assumes "repo_find mid (store sys) = []" "speechAvailable env" "isWav env"
    and "transcribeFile env = Inr segs" "segs \<noteq> []"
    and "updateTranscriptSegments mid segs (getSpeakerMappings env) (store sys) = (Some e, st')"
  shows "processAudioFile mid env sys = \<lparr>store = st', status = ''failed''\<rparr>"
  using assms by (simp add: processAudioFile_def Let_def transcribeBatch_def)

theorem partial_replace_counterexample:
  "repo_find ''m1'' (store ex_sys) = ex_segments \<and>
   map (newSegment ''m1'') (reconcile ex_spans ex_segments) =
     [ex_seg 1 ''Hello there'' (4/10) 0 (9/10), ex_seg 2 ''World'' (8/10) 1 2] \<and>
   fst (assignSpeakersAndMergeSegments ''m1'' ex_segments ex_spans (store ex_sys)) = Some PersistenceError \<and>
   rows (store (processAudioFile ''m1'' ex_env ex_sys)) = [ex_seg 1 ''Hello there'' (4/10) 0 (9/10)] \<and>
   status (processAudioFile ''m1'' ex_env ex_sys) = ''completed''"
proof -
  have f: "repo_find ''m1'' (store ex_sys) = ex_segments"
    by (simp add: repo_find_def ex_sys_def ex_segments_def ex_seg_def)
  have r: "map (newSegment ''m1'') (reconcile ex_spans ex_segments) =
     [ex_seg 1 ''Hello there'' (4/10) 0 (9/10), ex_seg 2 ''World'' (8/10) 1 2]"
    by (simp add: ex_reconcile newSegment_def ex_seg_def)
  have d: "repo_delete ''m1'' (store ex_sys) = (None, \<lparr>rows = [], failAfter = Some 1\<rparr>)"
    by (simp add: repo_delete_def repo_write_def ex_sys_def ex_segments_def ex_seg_def)
  have w: "assignSpeakersAndMergeSegments ''m1'' ex_segments ex_spans (store ex_sys) =
      (Some PersistenceError,
       \<lparr>rows = [ex_seg 1 ''Hello there'' (4/10) 0 (9/10)], failAfter = Some 0\<rparr>)"
    by (simp add: assignSpeakersAndMergeSegments_def Let_def r d repo_save_def repo_write_def)
  have n: "ex_segments \<noteq> []"
    by (simp add: ex_segments_def)
  have "diarizeExisting ''m1'' ex_env ex_segments (store ex_sys) =
      Inr \<lparr>rows = [ex_seg 1 ''Hello there'' (4/10) 0 (9/10)], failAfter = Some 0\<rparr>"
    by (simp add: diarizeExisting_def ex_env_def w)
  then have p: "processAudioFile ''m1'' ex_env ex_sys =
      \<lparr>store = \<lparr>rows = [ex_seg 1 ''Hello there'' (4/10) 0 (9/10)], failAfter = Some 0\<rparr>,
       status = ''completed''\<rparr>"
    by (simp add: processAudioFile_def Let_def f n)
  from f r w p show ?thesis by simp
qed

section \<open>Properties of the result normalizers\<close>

subsection \<open>Counting tags and choosing the dominant one\<close>

lemma find_filter_neq: "\<not> P x \<Longrightarrow> find P (filter (\<lambda>y. y \<noteq> x) ys) = find P ys"
  by (induction ys) auto

lemma find_uniq: "find P (uniq xs) = find P xs"
  by (induction xs) (auto simp: find_filter_neq)

lemma map_set_present:
  "k \<in> fst ` set m \<Longrightarrow> distinct (map fst m) \<Longrightarrow>
   map_set m k v = map (\<lambda>(k', c). if k' = k then (k', v) else (k', c)) m"
proof (induction m)
  case Nil
  then show ?case by simp
next
  case (Cons e m)
  obtain k' c where e: "e = (k', c)" by (cases e)
  show ?case
  proof (cases "k' = k")
    case True
    then have "k \<notin> fst ` set m" using Cons.prems e by auto
    then have "map (\<lambda>(k', c). if k' = k then (k', v) else (k', c)) m = m"
      by (induction m) auto
    with True e show ?thesis by simp
  next
    case False
    with Cons e show ?thesis by auto
  qed
qed

lemma map_set_absent: "k \<notin> fst ` set m \<Longrightarrow> map_set m k v = m @ [(k, v)]"
  by (induction m) auto

lemma map_of_absent: "k \<notin> fst ` set m \<Longrightarrow> map_of m k = None"
  by (simp add: map_of_eq_None_iff)

lemma countTag_present:
  assumes "k \<in> fst ` set m" "distinct (map fst m)"
  shows "countTag m k = map (\<lambda>(k', c). if k' = k then (k', c + 1) else (k', c)) m"
proof -
  obtain c0 where c0: "map_of m k = Some c0"
    using assms(1) by (cases "map_of m k") (auto simp: map_of_eq_None_iff)
  have "map (\<lambda>(k', c). if k' = k then (k', c0 + 1) else (k', c)) m
      = map (\<lambda>(k', c). if k' = k then (k', c + 1) else (k', c)) m"
  proof (rule map_cong[OF refl])
    fix e assume "e \<in> set m"
    obtain k' c where e: "e = (k', c)" by (cases e)
    show "(case e of (k', c) \<Rightarrow> if k' = k then (k', c0 + 1) else (k', c)) =
          (case e of (k', c) \<Rightarrow> if k' = k then (k', c + 1) else (k', c))"
    proof (cases "k' = k")
      case True
      with \<open>e \<in> set m\<close> e assms(2) have "map_of m k = Some c" by simp
      with c0 True e show ?thesis by simp
    next
      case False
      with e show ?thesis by simp
    qed
  qed
  moreover have "countTag m k = map_set m k (c0 + 1)"
    by (simp add: countTag_def c0)
  moreover have "map_set m k (c0 + 1) = map (\<lambda>(k', c). if k' = k then (k', c0 + 1) else (k', c)) m"
    using assms by (rule map_set_present)
  ultimately show ?thesis by (simp only:)
qed

lemma countTag_absent: "k \<notin> fst ` set m \<Longrightarrow> countTag m k = m @ [(k, 1)]"
  by (simp add: countTag_def map_set_absent map_of_absent)

lemma count_fold:
  "distinct (map fst m) \<Longrightarrow>
   fold (\<lambda>t m. countTag m t) tags m =
     map (\<lambda>(k, c). (k, c + count_list tags k)) m @
     map (\<lambda>t. (t, count_list tags t)) (filter (\<lambda>t. t \<notin> fst ` set m) (uniq tags))"
proof (induction tags arbitrary: m)
  case Nil
  then show ?case by simp
next
  case (Cons x xs)
  show ?case
  proof (cases "x \<in> fst ` set m")
    case True
    let ?m = "map (\<lambda>(k', c). if k' = x then (k', c + 1) else (k', c)) m"
    have m': "countTag m x = ?m" using True Cons.prems by (rule countTag_present)
    have keys: "map fst ?m = map fst m" by (induction m) auto
    have d: "distinct (map fst ?m)" using Cons.prems by (simp only: keys)
    have fs: "fst ` set ?m = fst ` set m" using keys by (metis set_map)
    have "fold (\<lambda>t m. countTag m t) (x # xs) m = fold (\<lambda>t m. countTag m t) xs ?m"
      using m' by simp
    also have "\<dots> = map (\<lambda>(k, c). (k, c + count_list xs k)) ?m @
       map (\<lambda>t. (t, count_list xs t)) (filter (\<lambda>t. t \<notin> fst ` set ?m) (uniq xs))"
      using d by (rule Cons.IH)
    also have "map (\<lambda>(k, c). (k, c + count_list xs k)) ?m
        = map (\<lambda>(k, c). (k, c + count_list (x # xs) k)) m"
      by (induction m) auto
    also have "map (\<lambda>t. (t, count_list xs t)) (filter (\<lambda>t. t \<notin> fst ` set ?m) (uniq xs))
        = map (\<lambda>t. (t, count_list (x # xs) t)) (filter (\<lambda>t. t \<notin> fst ` set m) (uniq (x # xs)))"
      using True unfolding fs by (auto simp: filter_filter intro!: map_cong filter_cong)
    finally show ?thesis .
  next
    case False
    let ?m = "m @ [(x, 1)]"
    have m': "countTag m x = ?m" using False by (rule countTag_absent)
    have d: "distinct (map fst ?m)" using Cons.prems False by auto
    have "fold (\<lambda>t m. countTag m t) (x # xs) m = fold (\<lambda>t m. countTag m t) xs ?m"
      using m' by simp
    also have "\<dots> = map (\<lambda>(k, c). (k, c + count_list xs k)) ?m @
       map (\<lambda>t. (t, count_list xs t)) (filter (\<lambda>t. t \<notin> fst ` set ?m) (uniq xs))"
      using d by (rule Cons.IH)
    also have "map (\<lambda>(k, c). (k, c + count_list xs k)) ?m
        = map (\<lambda>(k, c). (k, c + count_list (x # xs) k)) m @ [(x, count_list (x # xs) x)]"
    proof -
      have nx: "(x, b) \<notin> set m" for b using False by force
      then show ?thesis by (auto intro!: map_cong)
    qed
    also have "map (\<lambda>t. (t, count_list xs t)) (filter (\<lambda>t. t \<notin> fst ` set ?m) (uniq xs))
        = map (\<lambda>t. (t, count_list (x # xs) t))
            (filter (\<lambda>t. t \<notin> fst ` set m) (filter (\<lambda>y. y \<noteq> x) (uniq xs)))"
      by (auto simp: filter_filter intro!: map_cong filter_cong)
    finally show ?thesis using False by simp
  qed
qed

lemma count_fold_empty:
  "fold (\<lambda>t m. countTag m t) tags [] = map (\<lambda>t. (t, count_list tags t)) (uniq tags)"
  using count_fold [of "[]" tags] by simp

lemma find_append:
  "find P (xs @ ys) = (case find P xs of None \<Rightarrow> find P ys | Some x \<Rightarrow> Some x)"
  by (induction xs) auto

lemma dominant_invariant:
  assumes "\<forall>t \<in> set ks. 1 \<le> f t"
  shows "(\<forall>t \<in> set ks. f t \<le> snd (fold dominantStep (map (\<lambda>t. (t, f t)) ks) (1, 0))) \<and>
         (ks \<noteq> [] \<longrightarrow>
            find (\<lambda>t. f t = snd (fold dominantStep (map (\<lambda>t. (t, f t)) ks) (1, 0))) ks
              = Some (fst (fold dominantStep (map (\<lambda>t. (t, f t)) ks) (1, 0))))"
  using assms
proof (induction ks rule: rev_induct)
  case Nil
  then show ?case by simp
next
  case (snoc x xs)
  obtain b mx where acc: "fold dominantStep (map (\<lambda>t. (t, f t)) xs) (1, 0) = (b, mx)"
    by (cases "fold dominantStep (map (\<lambda>t. (t, f t)) xs) (1, 0)")
  have ih1: "\<forall>t \<in> set xs. f t \<le> mx" and ih2: "xs \<noteq> [] \<longrightarrow> find (\<lambda>t. f t = mx) xs = Some b"
    using snoc acc by auto
  have fx: "1 \<le> f x" using snoc.prems by simp
  have "fold dominantStep (map (\<lambda>t. (t, f t)) (xs @ [x])) (1, 0) = dominantStep (x, f x) (b, mx)"
    using acc by simp
  also have "\<dots> = (if mx < f x then (x, f x) else (b, mx))"
    by (simp add: dominantStep_def)
  finally have step: "fold dominantStep (map (\<lambda>t. (t, f t)) (xs @ [x])) (1, 0)
      = (if mx < f x then (x, f x) else (b, mx))" .
  show ?case
  proof (cases "mx < f x")
    case True
    have "find (\<lambda>t. f t = f x) xs = None"
      using ih1 True by (auto simp: find_None_iff)
    then have "find (\<lambda>t. f t = f x) (xs @ [x]) = Some x"
      by (simp add: find_append)
    with True ih1 show ?thesis unfolding step by auto
  next
    case False
    then have ne: "xs \<noteq> []" using fx acc by (cases xs) auto
    with ih2 have "find (\<lambda>t. f t = mx) (xs @ [x]) = Some b" by (simp add: find_append)
    with False ih1 show ?thesis unfolding step by auto
  qed
qed

lemma dominant_first_max:
  assumes "tags \<noteq> []"
  shows "firstMostFrequent tags =
     Some (dominantSpeaker (fold (\<lambda>t m. countTag m t) tags []))"
proof -
  let ?f = "count_list tags"
  let ?ks = "uniq tags"
  let ?acc = "fold dominantStep (map (\<lambda>t. (t, ?f t)) ?ks) (1, 0)"
  have pos: "\<forall>t \<in> set ?ks. 1 \<le> ?f t"
  proof
    fix t assume "t \<in> set ?ks"
    then have "t \<in> set tags" by (simp add: set_uniq)
    then have "?f t \<noteq> 0" by (simp add: count_list_0_iff)
    then show "1 \<le> ?f t" by simp
  qed
  have ne: "?ks \<noteq> []" using assms by (cases tags) auto
  from dominant_invariant [OF pos] ne
  have ub: "\<forall>t \<in> set ?ks. ?f t \<le> snd ?acc"
    and fi: "find (\<lambda>t. ?f t = snd ?acc) ?ks = Some (fst ?acc)"
    by auto
  from fi have mem: "fst ?acc \<in> set ?ks" and att: "?f (fst ?acc) = snd ?acc"
    by (auto simp: find_Some_iff)
  have "find (\<lambda>t. \<forall>t' \<in> set tags. ?f t' \<le> ?f t) ?ks = find (\<lambda>t. ?f t = snd ?acc) ?ks"
  proof (rule find_cong[OF refl])
    fix t assume t: "t \<in> set ?ks"
    show "(\<forall>t' \<in> set tags. ?f t' \<le> ?f t) = (?f t = snd ?acc)"
    proof
      assume a: "\<forall>t' \<in> set tags. ?f t' \<le> ?f t"
      from mem have "fst ?acc \<in> set tags" by (simp add: set_uniq)
      with a att have "snd ?acc \<le> ?f t" by auto
      moreover from ub t have "?f t \<le> snd ?acc" by auto
      ultimately show "?f t = snd ?acc" by simp
    next
      assume "?f t = snd ?acc"
      with ub show "\<forall>t' \<in> set tags. ?f t' \<le> ?f t" by (simp add: set_uniq)
    qed
  qed
  with fi have "find (\<lambda>t. \<forall>t' \<in> set tags. ?f t' \<le> ?f t) ?ks = Some (fst ?acc)" by simp
  then show ?thesis
    by (simp add: firstMostFrequent_def find_uniq dominantSpeaker_def count_fold_empty)
qed

text \<open>Both word loops count the tags of the words they emit, in word order.\<close>

lemma google_loop:
  "map w_speakerTag (l_words (fold googleWordStep ws l)) =
     map w_speakerTag (l_words l) @ map w_speakerTag (l_words (fold googleWordStep ws wordLoopInit)) \<and>
   l_speakerTagCounts (fold googleWordStep ws l) =
     fold (\<lambda>t m. countTag m t)
       (map w_speakerTag (l_words (fold googleWordStep ws wordLoopInit))) (l_speakerTagCounts l)"
proof (induction ws arbitrary: l)
  case Nil
  then show ?case by (simp add: wordLoopInit_def)
next
  case (Cons w ws)
  have a: "map w_speakerTag (l_words (googleWordStep w l)) =
      map w_speakerTag (l_words l) @ map w_speakerTag (l_words (googleWordStep w wordLoopInit))"
    by (simp add: googleWordStep_def Let_def wordLoopInit_def)
  have b: "l_speakerTagCounts (googleWordStep w l) =
      fold (\<lambda>t m. countTag m t) (map w_speakerTag (l_words (googleWordStep w wordLoopInit)))
        (l_speakerTagCounts l)"
    by (simp add: googleWordStep_def Let_def wordLoopInit_def)
  show ?case
    using Cons.IH [of "googleWordStep w l"] Cons.IH [of "googleWordStep w wordLoopInit"] a b
    by simp
qed

lemma dg_loop:
  "map dw_speakerTag (dl_words (fold dgWordStep ws l)) =
     map dw_speakerTag (dl_words l) @ map dw_speakerTag (dl_words (fold dgWordStep ws dgWordLoopInit)) \<and>
   dl_speakerTagCounts (fold dgWordStep ws l) =
     fold (\<lambda>t m. countTag m t)
       (map dw_speakerTag (dl_words (fold dgWordStep ws dgWordLoopInit))) (dl_speakerTagCounts l)"
proof (induction ws arbitrary: l)
  case Nil
  then show ?case by (simp add: dgWordLoopInit_def)
next
  case (Cons w ws)
  have a: "map dw_speakerTag (dl_words (dgWordStep w l)) =
      map dw_speakerTag (dl_words l) @ map dw_speakerTag (dl_words (dgWordStep w dgWordLoopInit))"
    by (simp add: dgWordStep_def Let_def dgWordLoopInit_def)
  have b: "dl_speakerTagCounts (dgWordStep w l) =
      fold (\<lambda>t m. countTag m t) (map dw_speakerTag (dl_words (dgWordStep w dgWordLoopInit)))
        (dl_speakerTagCounts l)"
    by (simp add: dgWordStep_def Let_def dgWordLoopInit_def)
  show ?case
    using Cons.IH [of "dgWordStep w l"] Cons.IH [of "dgWordStep w dgWordLoopInit"] a b
    by simp
qed

lemma google_event:
  assumes "handleStreamData data = Some ev"
  shows "tr_speakerTag ev =
     dominantSpeaker (fold (\<lambda>t m. countTag m t) (map w_speakerTag (tr_words ev)) [])"
proof -
  have i: "l_speakerTagCounts wordLoopInit =
      fold (\<lambda>t m. countTag m t) (map w_speakerTag (l_words wordLoopInit)) []"
    by (simp add: wordLoopInit_def)
  have f: "l_speakerTagCounts (fold googleWordStep ws wordLoopInit) =
      fold (\<lambda>t m. countTag m t) (map w_speakerTag (l_words (fold googleWordStep ws wordLoopInit))) []" for ws
    using google_loop [of ws wordLoopInit] by (simp add: wordLoopInit_def)
  from assms show ?thesis
    by (auto simp: handleStreamData_def Let_def i f split: option.splits list.splits)
qed

lemma dg_event:
  assumes "handleTranscript data = Some ev"
  shows "dr_speakerTag ev =
     dominantSpeaker (fold (\<lambda>t m. countTag m t) (map dw_speakerTag (dr_words ev)) [])"
proof -
  have i: "dl_speakerTagCounts dgWordLoopInit =
      fold (\<lambda>t m. countTag m t) (map dw_speakerTag (dl_words dgWordLoopInit)) []"
    by (simp add: dgWordLoopInit_def)
  have f: "dl_speakerTagCounts (fold dgWordStep ws dgWordLoopInit) =
      fold (\<lambda>t m. countTag m t) (map dw_speakerTag (dl_words (fold dgWordStep ws dgWordLoopInit))) []" for ws
    using dg_loop [of ws dgWordLoopInit] by (simp add: dgWordLoopInit_def)
  from assms show ?thesis
    by (auto simp: handleTranscript_def Let_def i f split: option.splits list.splits if_splits)
qed

text \<open>
  Claim C1, as amended. For every emitted event with a non-empty word list, in the Google
  and in the Deepgram normalizer, the dominant speaker tag is a tag with the highest word
  count among the word-level tags of the event, and when two or more tags have that
  count, it is the one that occurs first in the word list.
\<close>

theorem dominant_speaker_first_majority:
  "(handleStreamData data = Some ev \<and> tr_words ev \<noteq> [] \<longrightarrow>
      firstMostFrequent (map w_speakerTag (tr_words ev)) = Some (tr_speakerTag ev)) \<and>
   (handleTranscript dgData = Some dgEv \<and> dr_words dgEv \<noteq> [] \<longrightarrow>
      firstMostFrequent (map dw_speakerTag (dr_words dgEv)) = Some (dr_speakerTag dgEv))"
proof (intro conjI impI)
  assume a: "handleStreamData data = Some ev \<and> tr_words ev \<noteq> []"
  then have "map w_speakerTag (tr_words ev) \<noteq> []" by simp
  from dominant_first_max [OF this] google_event [of data ev] a
  show "firstMostFrequent (map w_speakerTag (tr_words ev)) = Some (tr_speakerTag ev)" by simp
next
  assume a: "handleTranscript dgData = Some dgEv \<and> dr_words dgEv \<noteq> []"
  then have "map dw_speakerTag (dr_words dgEv) \<noteq> []" by simp
  from dominant_first_max [OF this] dg_event [of dgData dgEv] a
  show "firstMostFrequent (map dw_speakerTag (dr_words dgEv)) = Some (dr_speakerTag dgEv)" by simp
qed

lemma ex_google_event:
  "handleStreamData (ex_data [ex_word 2 0 500000000, ex_word 1 500000000 1000000000]) =
     Some \<lparr>tr_transcript = ''w w'', tr_confidence = 9/10, tr_isFinal = True, tr_speakerTag = 2,
           tr_startTime = 1/2, tr_endTime = 1,
           tr_words = [\<lparr>w_word = ''w'', w_speakerTag = 2, w_startTime = 0, w_endTime = 1/2\<rparr>,
                       \<lparr>w_word = ''w'', w_speakerTag = 1, w_startTime = 1/2, w_endTime = 1\<rparr>]\<rparr>"
  by (simp add: handleStreamData_def ex_data_def ex_word_def googleWordStep_def Let_def
        wordLoopInit_def durationToSeconds_def countTag_def dominantSpeaker_def dominantStep_def)

lemma ex_dg_event:
  "handleTranscript (ex_dg_data [ex_dg_word 1, ex_dg_word 0]) =
     Some \<lparr>dr_transcript = js ''w w'', dr_confidence = 1, dr_isFinal = True, dr_speakerTag = 2,
           dr_startTime = 1, dr_endTime = 2,
           dr_words = [\<lparr>dw_word = ''w'', dw_speakerTag = 2, dw_startTime = 1, dw_endTime = 2,
                        dw_confidence = 1\<rparr>,
                       \<lparr>dw_word = ''w'', dw_speakerTag = 1, dw_startTime = 1, dw_endTime = 2,
                        dw_confidence = 1\<rparr>]\<rparr>"
  by (simp add: handleTranscript_def ex_dg_data_def ex_dg_word_def dgWordStep_def Let_def
        dgWordLoopInit_def countTag_def dominantSpeaker_def dominantStep_def orString_def
        orZero_def trim_def is_space_def js_def)

theorem dominant_speaker_first_majority_witness:
  "handleStreamData (ex_data [ex_word 2 0 500000000, ex_word 1 500000000 1000000000]) \<noteq> None \<and>
   map w_speakerTag (tr_words (the (handleStreamData
       (ex_data [ex_word 2 0 500000000, ex_word 1 500000000 1000000000])))) = [2, 1] \<and>
   firstMostFrequent [2, 1] = Some 2 \<and>
   tr_speakerTag (the (handleStreamData
       (ex_data [ex_word 2 0 500000000, ex_word 1 500000000 1000000000]))) = 2 \<and>
   handleTranscript (ex_dg_data [ex_dg_word 1, ex_dg_word 0]) \<noteq> None \<and>
   map dw_speakerTag (dr_words (the (handleTranscript (ex_dg_data [ex_dg_word 1, ex_dg_word 0])))) = [2, 1] \<and>
   dr_speakerTag (the (handleTranscript (ex_dg_data [ex_dg_word 1, ex_dg_word 0]))) = 2"
  using dominant_speaker_first_majority
    [of "ex_data [ex_word 2 0 500000000, ex_word 1 500000000 1000000000]"
        "the (handleStreamData (ex_data [ex_word 2 0 500000000, ex_word 1 500000000 1000000000]))"
        "ex_dg_data [ex_dg_word 1, ex_dg_word 0]"
        "the (handleTranscript (ex_dg_data [ex_dg_word 1, ex_dg_word 0]))"]
  by (simp add: ex_google_event ex_dg_event)

theorem tie_lower_tag_counterexample:
  "map w_speakerTag (tr_words (the (handleStreamData
       (ex_data [ex_word 2 0 500000000, ex_word 1 500000000 1000000000])))) = [2, 1] \<and>
   count_list [2, 1] (1 :: int) = count_list [2, 1] (2 :: int) \<and>
   tr_speakerTag (the (handleStreamData
       (ex_data [ex_word 2 0 500000000, ex_word 1 500000000 1000000000]))) = 2 \<and>
   map dw_speakerTag (dr_words (the (handleTranscript (ex_dg_data [ex_dg_word 1, ex_dg_word 0])))) = [2, 1] \<and>
   dr_speakerTag (the (handleTranscript (ex_dg_data [ex_dg_word 1, ex_dg_word 0]))) = 2"
  by (simp add: ex_google_event ex_dg_event)

subsection \<open>Segment start and end\<close>

text \<open>
  What \<open>handleStreamData\<close> emits as segment times: the end is the end of the last word, the
  start is the first word start that is not 0, and both are 0 for an empty word list.
\<close>

lemma google_times_loop:
  "l_endTime (fold googleWordStep ws l) =
     (if ws = [] then l_endTime l else durationToSeconds (wi_endTime (last ws))) \<and>
   l_startTime (fold googleWordStep ws l) =
     (if l_startTime l \<noteq> 0 then l_startTime l
      else (case find (\<lambda>t. t \<noteq> 0) (map (\<lambda>w. durationToSeconds (wi_startTime w)) ws) of
              None \<Rightarrow> 0 | Some t \<Rightarrow> t)) \<and>
   map w_startTime (l_words (fold googleWordStep ws l)) =
     map w_startTime (l_words l) @ map (\<lambda>w. durationToSeconds (wi_startTime w)) ws \<and>
   map w_endTime (l_words (fold googleWordStep ws l)) =
     map w_endTime (l_words l) @ map (\<lambda>w. durationToSeconds (wi_endTime w)) ws"
proof (induction ws arbitrary: l)
  case Nil
  then show ?case by simp
next
  case (Cons w ws)
  show ?case
    using Cons.IH [of "googleWordStep w l"]
    by (simp add: googleWordStep_def Let_def)
qed

lemma google_times:
  assumes "handleStreamData data = Some ev"
  shows "tr_endTime ev = (if tr_words ev = [] then 0 else w_endTime (last (tr_words ev))) \<and>
         tr_startTime ev =
           (case find (\<lambda>t. t \<noteq> 0) (map w_startTime (tr_words ev)) of None \<Rightarrow> 0 | Some t \<Rightarrow> t)"
proof -
  have e: "l_endTime (fold googleWordStep ws wordLoopInit) =
      (if l_words (fold googleWordStep ws wordLoopInit) = [] then 0
       else w_endTime (last (l_words (fold googleWordStep ws wordLoopInit))))" for ws
  proof (cases ws)
    case Nil
    then show ?thesis by (simp add: wordLoopInit_def)
  next
    case (Cons a as)
    have m: "map w_endTime (l_words (fold googleWordStep ws wordLoopInit)) =
        map (\<lambda>w. durationToSeconds (wi_endTime w)) ws"
      using google_times_loop [of ws wordLoopInit] by (simp add: wordLoopInit_def)
    then have ne: "l_words (fold googleWordStep ws wordLoopInit) \<noteq> []"
      using Cons by auto
    have "w_endTime (last (l_words (fold googleWordStep ws wordLoopInit))) =
        last (map w_endTime (l_words (fold googleWordStep ws wordLoopInit)))"
      using ne by (simp add: last_map)
    also have "\<dots> = durationToSeconds (wi_endTime (last ws))"
      unfolding m using Cons by (simp add: last_map)
    finally show ?thesis
      using ne google_times_loop [of ws wordLoopInit] Cons by simp
  qed
  have s: "l_startTime (fold googleWordStep ws wordLoopInit) =
      (case find (\<lambda>t. t \<noteq> 0) (map w_startTime (l_words (fold googleWordStep ws wordLoopInit))) of
         None \<Rightarrow> 0 | Some t \<Rightarrow> t)" for ws
    using google_times_loop [of ws wordLoopInit] by (simp add: wordLoopInit_def)
  have i: "l_endTime wordLoopInit = 0" "l_startTime wordLoopInit = 0" "l_words wordLoopInit = []"
    by (simp_all add: wordLoopInit_def)
  from assms show ?thesis
    by (auto simp: handleStreamData_def Let_def i e s split: option.splits list.splits)
qed

text \<open>
  Claim C6 says that the segment start is the start time of the first word, also when
  that start time is 0 and later words start later. At a payload of two words that start
  at 0 and at 1/2, the emitted segment start is 1/2, the start of the second word, and
  not 0; the segment end is the end of the last word.
\<close>

theorem start_time_zero_first_word:
  "map w_startTime (tr_words (the (handleStreamData
       (ex_data [ex_word 1 0 500000000, ex_word 1 500000000 1000000000])))) = [0, 1/2] \<and>
   tr_startTime (the (handleStreamData
       (ex_data [ex_word 1 0 500000000, ex_word 1 500000000 1000000000]))) = 1/2 \<and>
   tr_endTime (the (handleStreamData
       (ex_data [ex_word 1 0 500000000, ex_word 1 500000000 1000000000]))) = 1"
  by (simp add: handleStreamData_def ex_data_def ex_word_def googleWordStep_def Let_def
        wordLoopInit_def durationToSeconds_def countTag_def dominantSpeaker_def dominantStep_def)

section \<open>Properties of the provider adapter\<close>

text \<open>
  Claim C10. For a session that is streaming (active, with a writable stream), the call of
  \<open>writeAudio\<close> that finds more than 290000 ms elapsed since the stream was opened returns
  true; no stream has a frame written by it, the service afterwards does not depend on the
  frame, the session is inactive without a stream, with one more restart counted and the
  restart timer set; and every call of \<open>writeAudio\<close> for the session in a state where
  \<open>isActive\<close> is cleared returns false and changes nothing.
\<close>

theorem feed_after_limit:
  assumes "sessions svc sid = Some session"
    and "recognizeStream session = Some i" and "i < length (streams svc)"
    and "isActive session"
    and "\<not> destroyed (streams svc ! i)" and "\<not> writableEnded (streams svc ! i)"
    and "now - audioInputStreamTimestamp session > streamingLimit"
  shows "fst (writeAudio sid audioData now svc) = True \<and>
         map written (streams (snd (writeAudio sid audioData now svc))) = map written (streams svc) \<and>
         snd (writeAudio sid audioData now svc) = snd (writeAudio sid otherData now svc) \<and>
         sessions (snd (writeAudio sid audioData now svc)) sid =
           Some (session\<lparr>restartCount := restartCount session + 1, isActive := False,
                         recognizeStream := None\<rparr>) \<and>
         pendingRestarts (snd (writeAudio sid audioData now svc)) = pendingRestarts svc @ [sid] \<and>
         (\<forall>svc' session' later laterData.
            sessions svc' sid = Some session' \<and> \<not> isActive session' \<longrightarrow>
            writeAudio sid laterData later svc' = (False, svc'))"
proof -
  have w: "writeAudio sid d now svc = (True, restartStream sid svc)" for d
    using assms by (simp add: writeAudio_def)
  have m: "map written (endStream i (streams svc)) = map written (streams svc)"
    by (auto simp: endStream_def map_update list_eq_iff_nth_eq nth_list_update)
  have l: "writeAudio sid laterData later svc' = (False, svc')"
    if "sessions svc' sid = Some session'" "\<not> isActive session'" for svc' session' later laterData
    using that by (simp add: writeAudio_def split: option.splits)
  show ?thesis
    using assms m l by (simp add: w restartStream_def)
qed

theorem feed_after_limit_witness:
  "sessions ex_service ''s1'' = Some ex_session \<and> recognizeStream ex_session = Some 0 \<and>
   0 < length (streams ex_service) \<and> isActive ex_session \<and>
   \<not> destroyed (streams ex_service ! 0) \<and> \<not> writableEnded (streams ex_service ! 0) \<and>
   290001 - audioInputStreamTimestamp ex_session > streamingLimit \<and>
   fst (writeAudio ''s1'' [3, 4] 290001 ex_service) = True \<and>
   map written (streams (snd (writeAudio ''s1'' [3, 4] 290001 ex_service))) = [[[1, 2]]] \<and>
   fst (writeAudio ''s1'' [5, 6] 290002 (snd (writeAudio ''s1'' [3, 4] 290001 ex_service))) = False"
proof -
  have h: "sessions ex_service ''s1'' = Some ex_session" "recognizeStream ex_session = Some 0"
    "0 < length (streams ex_service)" "isActive ex_session"
    "\<not> destroyed (streams ex_service ! 0)" "\<not> writableEnded (streams ex_service ! 0)"
    "290001 - audioInputStreamTimestamp ex_session > streamingLimit"
    by (simp_all add: ex_service_def ex_session_def streamingLimit_def)
  note t = feed_after_limit [OF h, of "[3, 4]" "[3, 4]"]
  from t have a: "fst (writeAudio ''s1'' [3, 4] 290001 ex_service) = True"
    and b: "map written (streams (snd (writeAudio ''s1'' [3, 4] 290001 ex_service))) =
             map written (streams ex_service)"
    and c: "sessions (snd (writeAudio ''s1'' [3, 4] 290001 ex_service)) ''s1'' =
             Some (ex_session\<lparr>restartCount := restartCount ex_session + 1, isActive := False,
                              recognizeStream := None\<rparr>)"
    by blast+
  from t have "\<forall>svc' session' later laterData.
      sessions svc' ''s1'' = Some session' \<and> \<not> isActive session' \<longrightarrow>
      writeAudio ''s1'' laterData later svc' = (False, svc')"
    by blast
  with c have "writeAudio ''s1'' [5, 6] 290002 (snd (writeAudio ''s1'' [3, 4] 290001 ex_service)) =
      (False, snd (writeAudio ''s1'' [3, 4] 290001 ex_service))"
    by simp
  with a b h show ?thesis by (simp add: ex_service_def)
qed

section \<open>Properties of the name extractor\<close>

subsection \<open>Matching a single class, and an anchored run of one class\<close>

lemma in_range_single: "in_range (a, a) x = (x = a)"
  by (auto simp: in_range_def)

lemma in_class_letters:
  "in_class False [(cu CHR ''a'', cu CHR ''z''), (cu CHR ''A'', cu CHR ''Z'')] x = is_letter x"
  by (simp add: in_class_def in_range_def is_letter_def)

text \<open>The ASCII letters are the code units with a case; white space has none.\<close>

lemma case_other: "\<not> is_letter x \<Longrightarrow> lower_char x = x \<and> upper_char x = x"
  by (simp add: is_letter_def lower_char_def upper_char_def cu_def)

lemma case_letter: "is_letter x \<Longrightarrow> is_letter (lower_char x) \<and> is_letter (upper_char x)"
  by (auto simp: is_letter_def lower_char_def upper_char_def cu_def)

lemma letter_range: "is_letter x \<Longrightarrow> 65 \<le> x \<and> x \<le> 122"
  by (auto simp: is_letter_def cu_def)

lemma letter_no_space: "is_letter x \<Longrightarrow> \<not> is_space x"
  using letter_range [of x] by (simp add: is_space_def)

lemma in_class_space_False: "in_class False space_ranges x = is_space x"
  apply (simp add: in_class_def space_ranges_def in_range_single)
  apply (simp add: in_range_def is_space_def)
  done

lemma in_class_ic:
  "in_class True rs x =
     (in_class False rs x \<or> in_class False rs (lower_char x) \<or> in_class False rs (upper_char x))"
  by (induction rs) (auto simp: in_class_def)

lemma in_class_space: "in_class ic space_ranges x = is_space x"
proof (cases "ic \<and> is_letter x")
  case False
  then show ?thesis
    using case_other [of x] by (cases ic) (auto simp: in_class_ic in_class_space_False)
next
  case True
  then have "\<not> is_space x" "\<not> is_space (lower_char x)" "\<not> is_space (upper_char x)"
    by (simp_all add: letter_no_space case_letter)
  with True show ?thesis by (simp add: in_class_ic in_class_space_False)
qed

lemma in_class_nameChars:
  "in_class False nameChars x =
     (is_letter x \<or> is_space x \<or> x = 0x27 \<or> x = cu CHR ''-'')"
proof -
  have "in_class False nameChars x =
      (in_class False [(cu CHR ''a'', cu CHR ''z''), (cu CHR ''A'', cu CHR ''Z'')] x \<or>
       in_class False space_ranges x \<or>
       in_class False [(0x27, 0x27), (cu CHR ''-'', cu CHR ''-'')] x)"
    by (simp add: in_class_def nameChars_def)
  also have "in_class False [(0x27, 0x27), (cu CHR ''-'', cu CHR ''-'')] x =
      (x = 0x27 \<or> x = cu CHR ''-'')"
    by (simp add: in_class_def in_range_single)
  finally show ?thesis by (simp add: in_class_letters in_class_space)
qed

lemma exec_from_cls:
  "(exec_from ic (Cls neg rs) c s \<noteq> None) = list_ex (\<lambda>x. in_class ic rs x \<noteq> neg) s"
  by (induction s arbitrary: c) auto

lemma star_cls_end:
  "(\<exists>st \<in> set (matches ic (Star (Cls neg rs)) (c, s, g)). fst (snd st) = []) =
     list_all (\<lambda>x. in_class ic rs x \<noteq> neg) s"
proof (induction s arbitrary: c)
  case Nil
  then show ?case by simp
next
  case (Cons x xs)
  show ?case
  proof (cases "in_class ic rs x \<noteq> neg")
    case True
    then show ?thesis using Cons.IH [of "x # c"] by simp
  next
    case False
    then show ?thesis by simp
  qed
qed

lemma concat_eol:
  "(concat (map (matches ic Eol) L) \<noteq> []) = (\<exists>st \<in> set L. fst (snd st) = [])"
  by (induction L) auto

lemma anchored_plus:
  "(matches ic (Seq Bol (Seq (Plus (Cls neg rs)) Eol)) ([], s, []) \<noteq> []) =
     (s \<noteq> [] \<and> list_all (\<lambda>x. in_class ic rs x \<noteq> neg) s)"
proof (cases s)
  case Nil
  then show ?thesis by (simp add: Plus_def)
next
  case (Cons x xs)
  show ?thesis
  proof (cases "in_class ic rs x \<noteq> neg")
    case True
    have "(concat (map (matches ic Eol) (matches ic (Star (Cls neg rs)) ([x], xs, []))) \<noteq> []) =
        list_all (\<lambda>x. in_class ic rs x \<noteq> neg) xs"
      unfolding concat_eol by (rule star_cls_end)
    with True Cons show ?thesis by (simp add: Plus_def)
  next
    case False
    with Cons show ?thesis by (simp add: Plus_def)
  qed
qed

lemma exec_from_bol:
  "c \<noteq> [] \<Longrightarrow> exec_from ic (Seq Bol p) c s = None"
  by (induction s arbitrary: c) auto

lemma test_anchored_plus:
  "test ic (Seq Bol (Seq (Plus (Cls neg rs)) Eol)) s =
     (s \<noteq> [] \<and> list_all (\<lambda>x. in_class ic rs x \<noteq> neg) s)"
proof (cases s)
  case Nil
  then show ?thesis by (simp add: test_def exec_def Plus_def)
next
  case (Cons x xs)
  let ?R = "Seq Bol (Seq (Plus (Cls neg rs)) Eol)"
  have n: "exec_from ic ?R [x] xs = None"
    by (rule exec_from_bol) simp
  have "(exec_from ic ?R [] (x # xs) \<noteq> None) = (matches ic ?R ([], x # xs, []) \<noteq> [])"
  proof (cases "matches ic ?R ([], x # xs, [])")
    case Nil
    then show ?thesis using n by (simp del: matches.simps)
  next
    case (Cons m ms)
    then show ?thesis by (simp del: matches.simps)
  qed
  then show ?thesis
    using anchored_plus [of ic neg rs s] Cons by (simp add: test_def exec_def del: matches.simps)
qed


subsection \<open>\<open>isValidName\<close>\<close>

text \<open>
  Claim C9, as amended. \<open>isValidName s\<close> is true exactly when \<open>s\<close> has length 1 to 50,
  contains at least one letter (a-z, A-Z), and consists only of letters, white space
  characters (every character of the class \<open>\s\<close>: U+0009 to U+000D, U+0020, U+00A0,
  U+1680, U+2000 to U+200A, U+2028, U+2029, U+202F, U+205F, U+3000 and U+FEFF),
  apostrophes and hyphens. It rejects the empty string, every string of 51 characters
  and \<open>John3\<close>, and accepts \<open>Mary-Jane\<close> and \<open>O'Brien\<close>.
\<close>

theorem isValidName_iff:
  "isValidName s =
     (1 \<le> length s \<and> length s \<le> 50 \<and> list_ex is_letter s \<and>
      list_all (\<lambda>x. is_letter x \<or> is_space x \<or> x = 0x27 \<or> x = cu CHR ''-'') s) \<and>
   \<not> isValidName [] \<and> (length s = 51 \<longrightarrow> \<not> isValidName s) \<and>
   \<not> isValidName (js ''John3'') \<and> isValidName (js ''Mary-Jane'') \<and>
   isValidName (js ''O'Brien'')"
proof -
  have a: "test False (Cls False [(cu CHR ''a'', cu CHR ''z''), (cu CHR ''A'', cu CHR ''Z'')]) t =
      list_ex is_letter t" for t
    using exec_from_cls [of False False _ "[]" t]
    by (simp add: test_def exec_def in_class_letters)
  have b: "test False (Seqs [Bol, Plus (Cls False nameChars), Eol]) t =
      (t \<noteq> [] \<and> list_all (\<lambda>x. is_letter x \<or> is_space x \<or> x = 0x27 \<or> x = cu CHR ''-'') t)"
    for t
    by (simp add: test_anchored_plus in_class_nameChars)
  have iff: "isValidName t =
     (1 \<le> length t \<and> length t \<le> 50 \<and> list_ex is_letter t \<and>
      list_all (\<lambda>x. is_letter x \<or> is_space x \<or> x = 0x27 \<or> x = cu CHR ''-'') t)" for t
    unfolding isValidName_def a b by (cases t) auto
  have e1: "\<not> isValidName (js ''John3'')"
    unfolding iff by (simp add: is_letter_def is_space_def js_def cu_def)
  have e2: "isValidName (js ''Mary-Jane'')"
    unfolding iff by (simp add: is_letter_def is_space_def js_def cu_def)
  have e3: "isValidName (js ''O'Brien'')"
    unfolding iff by (simp add: is_letter_def is_space_def js_def cu_def)
  show ?thesis using iff [of s] iff [of "[]"] e1 e2 e3 by simp
qed

theorem isValidName_iff_witness:
  "length (replicate 51 (cu CHR ''a'')) = 51 \<and> \<not> isValidName (replicate 51 (cu CHR ''a'')) \<and>
   isValidName (replicate 50 (cu CHR ''a'')) \<and> \<not> isValidName (js ''-'') \<and>
   isValidName [cu CHR ''a'', 0x3000, cu CHR ''b'']"
proof -
  note t = isValidName_iff [of "replicate 51 (cu CHR ''a'')"]
  then have a: "\<not> isValidName (replicate 51 (cu CHR ''a''))" by simp
  from isValidName_iff [of "replicate 50 (cu CHR ''a'')"]
  have b: "isValidName (replicate 50 (cu CHR ''a''))"
    by (simp add: list_ex_iff list_all_iff is_letter_def cu_def)
  from isValidName_iff [of "js ''-''"]
  have c: "\<not> isValidName (js ''-'')" by (simp add: is_letter_def js_def cu_def)
  from isValidName_iff [of "[cu CHR ''a'', 0x3000, cu CHR ''b'']"]
  have d: "isValidName [cu CHR ''a'', 0x3000, cu CHR ''b'']"
    by (simp add: is_letter_def is_space_def cu_def)
  from a b c d show ?thesis by simp
qed

theorem tab_in_name_counterexample:
  "isValidName [cu CHR ''a'', 0x09, cu CHR ''b''] \<and>
   \<not> validNameSpec [cu CHR ''a'', 0x09, cu CHR ''b'']"
  by code_simp

subsection \<open>The specified evaluations of \<open>extractName\<close>\<close>

lemma extractName_spelled:
  "extractName (js ''J-O-H-N'') =
     \<lparr>name = js ''John'', n_confidence = High, n_method = Spelled,
      originalText = js ''J-O-H-N'',
      debug = \<lparr>spelledName = Some (js ''JOHN''), phoneticName = Some (js ''j''),
               natoName = None\<rparr>\<rparr>"
  by code_simp

lemma extractName_phonetic:
  "extractName (js ''My name is Sarah, thanks'') =
     \<lparr>name = js ''Sarah'', n_confidence = Medium, n_method = Phonetic,
      originalText = js ''My name is Sarah, thanks'',
      debug = \<lparr>spelledName = None, phoneticName = Some (js ''sarah''), natoName = None\<rparr>\<rparr>"
  by code_simp

lemma extractName_nato:
  "extractName (js ''Juliet Oscar Hotel November'') =
     \<lparr>name = js ''John'', n_confidence = High, n_method = Nato,
      originalText = js ''Juliet Oscar Hotel November'',
      debug = \<lparr>spelledName = None, phoneticName = Some (js ''juliet oscar''),
               natoName = Some (js ''JOHN'')\<rparr>\<rparr>"
  by code_simp

text \<open>
  Claim C8. \<open>extractName("J-O-H-N")\<close> yields the name \<open>John\<close> with confidence high and
  method spelled; \<open>extractName("My name is Sarah, thanks")\<close> yields \<open>Sarah\<close> with
  confidence medium and method phonetic; \<open>extractName("Juliet Oscar Hotel November")\<close>
  yields \<open>John\<close> with confidence high and method nato.
\<close>

theorem extractName_specified_examples:
  "name (extractName (js ''J-O-H-N'')) = js ''John'' \<and>
   n_confidence (extractName (js ''J-O-H-N'')) = High \<and>
   n_method (extractName (js ''J-O-H-N'')) = Spelled \<and>
   name (extractName (js ''My name is Sarah, thanks'')) = js ''Sarah'' \<and>
   n_confidence (extractName (js ''My name is Sarah, thanks'')) = Medium \<and>
   n_method (extractName (js ''My name is Sarah, thanks'')) = Phonetic \<and>
   name (extractName (js ''Juliet Oscar Hotel November'')) = js ''John'' \<and>
   n_confidence (extractName (js ''Juliet Oscar Hotel November'')) = High \<and>
   n_method (extractName (js ''Juliet Oscar Hotel November'')) = Nato"
  by (simp add: extractName_spelled extractName_phonetic extractName_nato)
subsection \<open>Spelled letters\<close>


lemma in_class_Letter: "in_class True [(cu CHR ''a'', cu CHR ''z'')] x = is_letter x"
  by (auto simp: in_class_def in_range_def is_letter_def lower_char_def upper_char_def cu_def)

lemma letter_word: "is_letter x \<Longrightarrow> is_word_char x"
  by (auto simp: is_letter_def is_word_char_def)

lemma space_sep: "is_space x \<Longrightarrow> is_sep_char x"
  by (simp add: is_sep_char_def)



lemma in_class_separator: "in_class ic separator_ranges x = is_sep_char x"
proof -
  have "in_class ic separator_ranges x =
      (in_class ic [(cu CHR ''-'', cu CHR ''-''), (cu CHR '','', cu CHR '',''),
                    (cu CHR ''.'', cu CHR ''.'')] x \<or> in_class ic space_ranges x)"
    by (simp add: in_class_def separator_ranges_def)
  also have "in_class ic [(cu CHR ''-'', cu CHR ''-''), (cu CHR '','', cu CHR '',''),
                    (cu CHR ''.'', cu CHR ''.'')] x =
      (x = cu CHR ''-'' \<or> x = cu CHR '','' \<or> x = cu CHR ''.'')"
    by (auto simp: in_class_def in_range_single lower_char_def upper_char_def cu_def)
  finally show ?thesis by (auto simp: is_sep_char_def in_class_space)
qed


lemma m_letter_iff:
  "matches True (Grp n Letter) (c, r, g) =
     (case r of [] \<Rightarrow> [] | x # v \<Rightarrow> if is_letter x then [(x # c, v, (n, [x]) # g)] else [])"
  by (cases r) (simp_all add: Letter_def in_class_Letter)

lemma m_separator:
  "matches ic Separator (c, r, g) =
     (case r of [] \<Rightarrow> [] | x # v \<Rightarrow> if is_sep_char x then [(x # c, v, g)] else [])"
  by (cases r) (simp_all add: Separator_def in_class_separator)

lemma star_space_nil: "matches ic (Star Space) (c, [], g) = [(c, [], g)]"
  by (subst matches.simps) (simp add: Space_def del: matches.simps(7))

lemma star_space_cons:
  "matches ic (Star Space) (c, x # xs, g) =
     (if is_space x then matches ic (Star Space) (x # c, xs, g) else []) @ [(c, x # xs, g)]"
  by (subst matches.simps) (simp add: Space_def in_class_space del: matches.simps(7))

lemma m_seq: "matches ic (Seq p q) st = concat (map (matches ic q) (matches ic p st))"
  by (cases st) simp


lemma m_wordb:
  "matches ic WordB (c, r, g) = (if at_word_boundary c r then [(c, r, g)] else [])"
  by simp

declare matches.simps [simp del]

text \<open>
  \<open>\s*\<close> consumes white space only, and its first way to match consumes all of it; the
  second way leaves the last white space character.
\<close>

lemma star_space_mem:
  "e \<in> set (matches ic (Star Space) (c, r, g)) \<Longrightarrow>
   \<exists>u v. r = u @ v \<and> list_all is_space u \<and> e = (rev u @ c, v, g)"
proof (induction r arbitrary: c)
  case Nil
  then show ?case by (simp add: star_space_nil)
next
  case (Cons x xs)
  from Cons.prems
  consider "is_space x" "e \<in> set (matches ic (Star Space) (x # c, xs, g))" | "e = (c, x # xs, g)"
    by (auto simp: star_space_cons split: if_splits)
  then show ?case
  proof cases
    case 1
    from Cons.IH [OF 1(2)] obtain u v where "xs = u @ v" "list_all is_space u"
        "e = (rev u @ x # c, v, g)"
      by blast
    with 1(1) have "x # xs = (x # u) @ v \<and> list_all is_space (x # u) \<and> e = (rev (x # u) @ c, v, g)"
      by simp
    then show ?thesis by blast
  next
    case 2
    then have "x # xs = [] @ (x # xs) \<and> list_all is_space [] \<and> e = (rev [] @ c, x # xs, g)"
      by simp
    then show ?thesis by blast
  qed
qed



text \<open>
  \<open>\s*[-,.\s]\s*\<close> matches separators only; before a character that is no separator
  character, its first way to match consumes the whole separator.
\<close>

lemma separator_parts:
  assumes "list_all is_space u" "is_sep_char s" "list_all is_space w"
  shows "separator (u @ s # w)"
proof -
  have "filter (\<lambda>x. \<not> is_space x) u = []" "filter (\<lambda>x. \<not> is_space x) w = []"
    using assms(1,3) by (simp_all add: list_all_iff filter_empty_conv)
  moreover have "list_all is_sep_char u" "list_all is_sep_char w"
    using assms(1,3) by (simp_all add: list_all_iff space_sep)
  ultimately show ?thesis using assms(2) by (simp add: separator_def)
qed

lemma sep_mem:
  assumes "e \<in> set (matches ic Sep (c, r, g))"
  shows "\<exists>u v. r = u @ v \<and> separator u \<and> e = (rev u @ c, v, g)"
proof -
  from assms obtain e1 e2 where e1: "e1 \<in> set (matches ic (Star Space) (c, r, g))"
    and e2: "e2 \<in> set (matches ic Separator e1)"
    and e: "e \<in> set (matches ic (Star Space) e2)"
    by (auto simp: Sep_def m_seq)
  from star_space_mem [OF e1] obtain u1 v1 where 1: "r = u1 @ v1" "list_all is_space u1"
      "e1 = (rev u1 @ c, v1, g)"
    by blast
  from e2 obtain s v2 where 2: "v1 = s # v2" "is_sep_char s" "e2 = (s # rev u1 @ c, v2, g)"
    unfolding 1(3) m_separator by (cases v1) (auto split: if_splits)
  from e star_space_mem [of e ic "s # rev u1 @ c" v2 g]
  obtain u3 v where 3: "v2 = u3 @ v" "list_all is_space u3" "e = (rev u3 @ s # rev u1 @ c, v, g)"
    unfolding 2(3) by blast
  have "r = (u1 @ s # u3) @ v \<and> separator (u1 @ s # u3) \<and> e = (rev (u1 @ s # u3) @ c, v, g)"
    using 1 2 3 by (simp add: separator_parts)
  then show ?thesis by blast
qed




lemma pair_mem:
  assumes "e \<in> set (matches True (Seq Sep (Grp n Letter)) (c, r, g))"
  shows "\<exists>u x v. r = u @ x # v \<and> separator u \<and> is_letter x \<and>
           e = (x # rev u @ c, v, (n, [x]) # g)"
proof -
  from assms obtain e1 where e1: "e1 \<in> set (matches True Sep (c, r, g))"
    and e: "e \<in> set (matches True (Grp n Letter) e1)"
    by (auto simp: m_seq)
  from sep_mem [OF e1] obtain u v1 where 1: "r = u @ v1" "separator u" "e1 = (rev u @ c, v1, g)"
    by blast
  from e obtain x v where "v1 = x # v" "is_letter x" "e = (x # rev u @ c, v, (n, [x]) # g)"
    unfolding 1(3) m_letter_iff by (cases v1) (auto split: if_splits)
  with 1 show ?thesis by blast
qed


lemma pair_none_end: "matches True (Seq Sep (Grp n Letter)) (c, [], g) = []"
proof (rule ccontr)
  assume "matches True (Seq Sep (Grp n Letter)) (c, [], g) \<noteq> []"
  then obtain e where "e \<in> set (matches True (Seq Sep (Grp n Letter)) (c, [], g))"
    by (cases "matches True (Seq Sep (Grp n Letter)) (c, [], g)") auto
  from pair_mem [OF this] show False by simp
qed











text \<open>
  Where the letter pattern can match at all: at a letter that begins a word and is
  directly followed by a separator character. A text with no such letter among its first
  \<open>k\<close> characters has no match that starts there.
\<close>

lemma seq_nonempty:
  "matches ic (Seq p q) st \<noteq> [] \<Longrightarrow> \<exists>e \<in> set (matches ic p st). matches ic q e \<noteq> []"
  by (auto simp: m_seq)

lemma letterPattern_start:
  assumes "matches True letterPattern (c, r, g) \<noteq> []"
  shows "(c = [] \<or> \<not> is_word_char (hd c)) \<and>
         (\<exists>x y v. r = x # y # v \<and> is_letter x \<and> is_sep_char y)"
proof -
  let ?Z = "Seq (Grp 2 Letter) (Seq Sep (Seq (Grp 3 Letter)
              (Seq (Star (Seq Sep (Grp 4 Letter))) WordB)))"
  have lp: "letterPattern = Seq WordB (Seq (Grp 1 Letter) (Seq Sep ?Z))"
    by (simp add: letterPattern_def)
  from seq_nonempty [OF assms [unfolded lp]]
  obtain e0 where "e0 \<in> set (matches True WordB (c, r, g))"
    and 1: "matches True (Seq (Grp 1 Letter) (Seq Sep ?Z)) e0 \<noteq> []"
    by blast
  then have b: "at_word_boundary c r" and e0: "e0 = (c, r, g)"
    by (auto simp: m_wordb split: if_splits)
  from seq_nonempty [OF 1 [unfolded e0]]
  obtain e1 where "e1 \<in> set (matches True (Grp 1 Letter) (c, r, g))"
    and 2: "matches True (Seq Sep ?Z) e1 \<noteq> []"
    by blast
  then obtain x v where r: "r = x # v" and x: "is_letter x" and e1: "e1 = (x # c, v, (1, [x]) # g)"
    unfolding m_letter_iff by (cases r) (auto split: if_splits)
  from seq_nonempty [OF 2 [unfolded e1]]
  obtain e where "e \<in> set (matches True Sep (x # c, v, (1, [x]) # g))"
    by blast
  from sep_mem [OF this] obtain u v' where "v = u @ v'" "separator u" by blast
  then obtain y w where "v = y # w" "is_sep_char y"
    by (cases u) (auto simp: separator_def)
  moreover from b r letter_word [OF x] have "c = [] \<or> \<not> is_word_char (hd c)"
    by (cases c) (auto simp: at_word_boundary_def)
  ultimately show ?thesis using r x by blast
qed

lemma no_match_before_plain:
  assumes "k \<le> length s"
    and "\<forall>i < k. \<not> (is_letter (s ! i) \<and> (i = 0 \<or> \<not> is_word_char (s ! (i - 1))) \<and>
                      Suc i < length s \<and> is_sep_char (s ! Suc i))"
  shows "no_match_before letterPattern s k"
proof -
  have "matches True letterPattern (rev (take i s), drop i s, []) = []" if i: "i < k" for i
  proof (rule ccontr)
    assume "matches True letterPattern (rev (take i s), drop i s, []) \<noteq> []"
    from letterPattern_start [OF this]
    obtain x y v where c: "rev (take i s) = [] \<or> \<not> is_word_char (hd (rev (take i s)))"
      and d: "drop i s = x # y # v" and xy: "is_letter x" "is_sep_char y"
      by blast
    from d have xi: "s ! i = x" by (rule nth_via_drop)
    from d have "drop (Suc i) s = y # v" by (simp add: drop_Suc tl_drop [symmetric])
    then have yi: "s ! Suc i = y" by (rule nth_via_drop)
    from d have len: "Suc i < length s"
      using length_drop [of i s] by simp
    have "i = 0 \<or> \<not> is_word_char (s ! (i - 1))"
    proof (cases "i = 0")
      case False
      with len have ne: "take i s \<noteq> []" by auto
      from False len have "length (take i s) = i" "i - 1 < i" by simp_all
      with ne have "last (take i s) = s ! (i - 1)"
        by (simp add: last_conv_nth)
      note ne this
      with c show ?thesis by (simp add: hd_rev)
    qed simp
    with assms(2) i xi yi len xy show False by blast
  qed
  then show ?thesis by (simp add: no_match_before_def list_all_iff)
qed














end
